theory Spec2Isabelle
  imports Main "HOL-Library.Multiset"
begin

section \<open>Akoma Ntoso parser: the document model\<close>

text \<open>
  The program (\<^verbatim>\<open>src/ulit/parsers/akomantoso.py\<close>) works on an lxml element tree that it
  mutates in place, and it keeps references to elements of that tree (\<^verbatim>\<open>self.root\<close>,
  \<^verbatim>\<open>self.body\<close>, the list returned by \<^verbatim>\<open>findall\<close>) across the mutations.  The model
  therefore gives every element object an identity: a natural number stored in the
  element.  The live element objects form a forest: the first tree is the parsed
  document, the following trees are the subtrees that \<^verbatim>\<open>parent.remove(item)\<close> has
  detached (lxml keeps them alive as long as a reference exists, and
  \<^verbatim>\<open>getparent()\<close> still answers inside them).

  Text is a \<open>string\<close>, a character being a code point below 256.  The whitespace
  characters are those among them for which Python's \<^verbatim>\<open>str.isspace\<close> holds, which are
  also those matched by \<^verbatim>\<open>\s\<close>: the ASCII ones, U+0085 (next line) and U+00A0
  (no-break space).  Comments and processing instructions are not part of the model.
\<close>

subsection \<open>Strings\<close>

definition is_space :: "char \<Rightarrow> bool" where
  "is_space c = (c \<in> set [CHR 0x09, CHR 0x0A, CHR 0x0B, CHR 0x0C, CHR 0x0D,
                           CHR 0x1C, CHR 0x1D, CHR 0x1E, CHR 0x1F, CHR 0x20,
                           CHR 0x85, CHR 0xA0])"

text \<open>\<^verbatim>\<open>s.strip()\<close>\<close>

definition strip :: "string \<Rightarrow> string" where
  "strip s = rev (dropWhile is_space (rev (dropWhile is_space s)))"

text \<open>\<^verbatim>\<open>sep.join(parts)\<close>\<close>

fun join :: "string \<Rightarrow> string list \<Rightarrow> string" where
  "join sep [] = []"
| "join sep [x] = x"
| "join sep (x # y # ys) = x @ sep @ join sep (y # ys)"

text \<open>\<^verbatim>\<open>re.sub(r'\s+', ' ', s)\<close>: every maximal run of whitespace becomes one space.\<close>

function re_sub_ws :: "string \<Rightarrow> string" where
  "re_sub_ws [] = []"
| "re_sub_ws (c # cs) =
     (if is_space c then CHR '' '' # re_sub_ws (dropWhile is_space cs)
      else c # re_sub_ws cs)"
  by pat_completeness auto
termination
  by (relation "measure length") (auto simp: length_dropWhile_le less_Suc_eq_le)

text \<open>Python's truth value of an optional string: \<^verbatim>\<open>None\<close> and \<^verbatim>\<open>''\<close> are false.\<close>

fun truthy :: "string option \<Rightarrow> bool" where
  "truthy None = False"
| "truthy (Some s) = (s \<noteq> [])"

text \<open>\<^verbatim>\<open>x or ''\<close>\<close>

fun or_empty :: "string option \<Rightarrow> string" where
  "or_empty None = []"
| "or_empty (Some s) = s"

subsection \<open>Elements\<close>

text \<open>
  A qualified name is a namespace URI (empty for no namespace) and a local name.
  \<open>akn\<close> and \<open>fmx\<close> resolve the two prefixes of \<^verbatim>\<open>self.namespaces\<close>; \<open>plain\<close> is an
  unprefixed name, which matches elements in no namespace.
\<close>

type_synonym qname = "string \<times> string"

definition akn :: "string \<Rightarrow> qname" where
  "akn l = (''http://docs.oasis-open.org/legaldocml/ns/akn/3.0'', l)"

definition fmx :: "string \<Rightarrow> qname" where
  "fmx l = (''http://formex.publications.europa.eu/schema/formex-05.56-20160701.xd'', l)"

definition plain :: "string \<Rightarrow> qname" where
  "plain l = ('''', l)"

datatype elem = Elem (eid: nat) (etag: qname) (attrib: "(string \<times> string) list")
  (etext: "string option") (echildren: "elem list") (etail: "string option")

text \<open>\<^verbatim>\<open>element.get(name)\<close>: the attribute's value, or \<^verbatim>\<open>None\<close>.\<close>

definition get_attr :: "elem \<Rightarrow> string \<Rightarrow> string option" where
  "get_attr e name = map_of (attrib e) name"

fun opt :: "string option \<Rightarrow> string list" where
  "opt None = []"
| "opt (Some s) = [s]"

text \<open>
  The functions below recurse over a sequence of sibling elements and, inside each, over
  its children: \<open>iter\<close> lists the elements of such a sequence with all their descendants
  in document order, \<open>texts\<close> lists their text pieces, tails included.
\<close>

fun iter :: "elem list \<Rightarrow> elem list" where
  "iter [] = []"
| "iter (Elem i t a x cs l # es) = Elem i t a x cs l # iter cs @ iter es"

fun texts :: "elem list \<Rightarrow> string list" where
  "texts [] = []"
| "texts (Elem i t a x cs l # es) = opt x @ texts cs @ opt l @ texts es"

text \<open>\<^verbatim>\<open>element.iterdescendants()\<close> and \<^verbatim>\<open>element.itertext()\<close> (the element's own tail is
  not part of its text).\<close>

definition iterdescendants :: "elem \<Rightarrow> elem list" where
  "iterdescendants e = iter (echildren e)"

definition itertext :: "elem \<Rightarrow> string list" where
  "itertext e = opt (etext e) @ texts (echildren e)"

subsection \<open>The forest of live elements\<close>

type_synonym forest = "elem list"

text \<open>The element object with identity \<open>i\<close>, as it is now.\<close>

fun lookup :: "nat \<Rightarrow> forest \<Rightarrow> elem option" where
  "lookup i [] = None"
| "lookup i (Elem j t a x cs l # es) =
     (if i = j then Some (Elem j t a x cs l)
      else case lookup i cs of Some e \<Rightarrow> Some e | None \<Rightarrow> lookup i es)"

text \<open>\<^verbatim>\<open>element.getparent()\<close>: the identity of the parent, \<open>None\<close> for the root of a tree.\<close>

fun getparent :: "nat \<Rightarrow> forest \<Rightarrow> nat option" where
  "getparent i [] = None"
| "getparent i (Elem j t a x cs l # es) =
     (if i \<in> set (map eid cs) then Some j
      else case getparent i cs of Some p \<Rightarrow> Some p | None \<Rightarrow> getparent i es)"

text \<open>\<^verbatim>\<open>parent.remove(item)\<close> unlinks the child from its parent; the tail goes with it.\<close>

fun unlink :: "nat \<Rightarrow> nat \<Rightarrow> forest \<Rightarrow> forest" where
  "unlink p i [] = []"
| "unlink p i (Elem j t a x cs l # es) =
     Elem j t a x (if j = p then filter (\<lambda>c. eid c \<noteq> i) cs else unlink p i cs) l
       # unlink p i es"

definition remove_child :: "nat \<Rightarrow> elem \<Rightarrow> forest \<Rightarrow> forest" where
  "remove_child p item F = unlink p (eid item) F @ [item]"

text \<open>The assignments \<^verbatim>\<open>element.tail = v\<close> and \<^verbatim>\<open>element.text = v\<close>.\<close>

fun set_tail :: "nat \<Rightarrow> string \<Rightarrow> forest \<Rightarrow> forest" where
  "set_tail i v [] = []"
| "set_tail i v (Elem j t a x cs l # es) =
     Elem j t a x (set_tail i v cs) (if i = j then Some v else l) # set_tail i v es"

fun set_text :: "nat \<Rightarrow> string \<Rightarrow> forest \<Rightarrow> forest" where
  "set_text i v [] = []"
| "set_text i v (Elem j t a x cs l # es) =
     Elem j t a (if i = j then Some v else x) (set_text i v cs) l # set_text i v es"

text \<open>Every element object has its own identity.\<close>

definition wf_forest :: "forest \<Rightarrow> bool" where
  "wf_forest F = distinct (map eid (iter F))"

subsection \<open>Paths\<close>

text \<open>
  The fragment of lxml's ElementPath that the program uses, and the positional
  predicate: \<^verbatim>\<open>.\<close> is \<open>Self\<close>, \<^verbatim>\<open>tag\<close> is \<open>Child\<close>, \<^verbatim>\<open>//tag\<close> is \<open>Desc\<close>, and
  \<^verbatim>\<open>[n]\<close> is \<open>Pos (n - 1)\<close>: lxml keeps an element when it is the one at index \<open>n - 1\<close>
  among its parent's children of the same tag.  A path is the list of its steps;
  \<^verbatim>\<open>.//akn:a/akn:b\<close> is \<open>[Self, Desc (akn ''a''), Child (akn ''b'')]\<close>.
\<close>

datatype step = Self | Child qname | Desc qname | Pos nat

type_synonym path = "step list"

fun nth_is :: "elem list \<Rightarrow> nat \<Rightarrow> nat \<Rightarrow> bool" where
  "nth_is [] k i = False"
| "nth_is (e # es) 0 i = (eid e = i)"
| "nth_is (e # es) (Suc k) i = nth_is es k i"

fun select :: "forest \<Rightarrow> step \<Rightarrow> elem list \<Rightarrow> elem list" where
  "select F Self r = r"
| "select F (Child t) r = concat (map (\<lambda>e. filter (\<lambda>c. etag c = t) (echildren e)) r)"
| "select F (Desc t) r = concat (map (\<lambda>e. filter (\<lambda>c. etag c = t) (iterdescendants e)) r)"
| "select F (Pos k) r =
     filter (\<lambda>e. case getparent (eid e) F of None \<Rightarrow> False
              | Some p \<Rightarrow> (case lookup p F of None \<Rightarrow> False
                  | Some pe \<Rightarrow> nth_is (filter (\<lambda>c. etag c = etag e) (echildren pe)) k (eid e))) r"

text \<open>\<^verbatim>\<open>element.findall(path)\<close> and \<^verbatim>\<open>element.find(path)\<close>\<close>

definition findall :: "forest \<Rightarrow> elem \<Rightarrow> path \<Rightarrow> elem list" where
  "findall F e p = foldl (\<lambda>r s. select F s r) [e] p"

definition find_elem :: "forest \<Rightarrow> elem \<Rightarrow> path \<Rightarrow> elem option" where
  "find_elem F e p = (case findall F e p of [] \<Rightarrow> None | x # _ \<Rightarrow> Some x)"

subsection \<open>Errors\<close>

text \<open>
  \<open>AttributeError\<close> is Python's exception for an attribute or method looked up on
  \<^verbatim>\<open>None\<close>, or on an object that does not have it.  \<open>DanglingRef\<close> is not an exception
  of the program: it is the model's answer when an identity is not in the forest, which
  cannot happen for a reference taken from the forest itself.
\<close>

datatype error = AttributeError | DanglingRef

section \<open>remove_node\<close>

text \<open>
  One turn of the loop of \<^verbatim>\<open>remove_node\<close> for the element with identity \<open>i\<close>.  The
  value \<^verbatim>\<open>text\<close> computed first is never used.  When the item has no parent, nothing is
  removed, and \<^verbatim>\<open>parent.getchildren()\<close> raises if there is a tail to preserve.
\<close>

definition remove_item :: "nat \<Rightarrow> forest \<Rightarrow> error + forest" where
  "remove_item i F =
     (case lookup i F of
        None \<Rightarrow> Inl DanglingRef
      | Some item \<Rightarrow>
          let parent = getparent i F;
              tail_text = etail item;
              F1 = (case parent of Some p \<Rightarrow> remove_child p item F | None \<Rightarrow> F)
          in if truthy tail_text then
               (case parent of
                  None \<Rightarrow> Inl AttributeError
                | Some p \<Rightarrow>
                    (case lookup p F1 of
                       None \<Rightarrow> Inl DanglingRef
                     | Some pe \<Rightarrow>
                         if echildren pe \<noteq> [] then
                           let previous_sibling = last (echildren pe) in
                           Inr (set_tail (eid previous_sibling)
                                  (or_empty (etail previous_sibling) @ or_empty tail_text) F1)
                         else
                           Inr (set_text p (or_empty (etext pe) @ or_empty tail_text) F1)))
             else Inr F1)"

fun remove_items :: "nat list \<Rightarrow> forest \<Rightarrow> error + forest" where
  "remove_items [] F = Inr F"
| "remove_items (i # is) F =
     (case remove_item i F of Inl e \<Rightarrow> Inl e | Inr F' \<Rightarrow> remove_items is F')"

text \<open>
  \<^verbatim>\<open>remove_node(tree, node)\<close>: \<open>tree\<close> is a reference, or \<^verbatim>\<open>None\<close>.  \<^verbatim>\<open>findall\<close> returns
  a list, so the items are fixed before the first removal.  The method returns
  \<^verbatim>\<open>tree\<close> itself; the model returns the forest after the mutation.
\<close>

definition remove_node :: "forest \<Rightarrow> nat option \<Rightarrow> path \<Rightarrow> error + forest" where
  "remove_node F tree node =
     (case tree of
        None \<Rightarrow> Inl AttributeError
      | Some r \<Rightarrow>
          (case lookup r F of
             None \<Rightarrow> Inl DanglingRef
           | Some e \<Rightarrow> remove_items (map eid (findall F e node)) F))"

section \<open>The parser\<close>

text \<open>
  The attributes of the parser object.  \<open>doc\<close> is the forest of live elements.  An
  attribute that has not been assigned yet is \<open>None\<close>: reading it raises
  \<open>AttributeError\<close>.  \<^verbatim>\<open>self.act\<close> and \<^verbatim>\<open>self.body\<close> can also hold Python's \<^verbatim>\<open>None\<close>,
  which is \<open>Some None\<close> here.
\<close>

record text_entry =
  te_eId :: string
  te_text :: string

record chapter_entry =
  ch_eId :: "string option"
  chapter_num :: "string option"
  chapter_heading :: "string option"

record article_entry =
  ar_eId :: "string option"
  article_num :: "string option"
  article_title :: "string option"
  article_text :: "text_entry list"

record recital_entry =
  recital_text :: string
  re_eId :: "string option"

record parser =
  doc :: forest
  root :: "nat option"
  act :: "nat option option"
  body :: "nat option option"
  chapters :: "chapter_entry list option"
  articles :: "article_entry list option"

text \<open>A dictionary whose values are optional strings, in the order of its keys.\<close>

type_synonym pydict = "(string \<times> string option) list"

definition init :: parser where
  "init = \<lparr>doc = [], root = None, act = None, body = None, chapters = None, articles = None\<rparr>"

text \<open>
  \<^verbatim>\<open>get_root(file)\<close>: the file's parsing is lxml's; the model takes the parsed tree.  The
  elements of an earlier document stay alive while the parser refers to them.
\<close>

definition get_root :: "elem \<Rightarrow> parser \<Rightarrow> parser" where
  "get_root t s = s\<lparr>doc := t # doc s, root := Some (eid t)\<rparr>"

definition bind_err :: "error + 'a \<Rightarrow> ('a \<Rightarrow> error + 'b) \<Rightarrow> error + 'b" where
  "bind_err m f = (case m of Inl e \<Rightarrow> Inl e | Inr x \<Rightarrow> f x)"

definition deref :: "forest \<Rightarrow> nat \<Rightarrow> error + elem" where
  "deref F i = (case lookup i F of None \<Rightarrow> Inl DanglingRef | Some e \<Rightarrow> Inr e)"

text \<open>\<^verbatim>\<open>self.root\<close>\<close>

definition self_root :: "parser \<Rightarrow> error + elem" where
  "self_root s = (case root s of None \<Rightarrow> Inl AttributeError | Some r \<Rightarrow> deref (doc s) r)"

subsection \<open>Metadata\<close>

text \<open>\<^verbatim>\<open>e.find(tag).get(name)\<close> and \<^verbatim>\<open>e.find(tag).text\<close>: both raise when \<^verbatim>\<open>find\<close> returns
  \<^verbatim>\<open>None\<close>.\<close>

definition find_get :: "forest \<Rightarrow> elem \<Rightarrow> qname \<Rightarrow> string \<Rightarrow> error + string option" where
  "find_get F e t name =
     (case find_elem F e [Child t] of None \<Rightarrow> Inl AttributeError | Some c \<Rightarrow> Inr (get_attr c name))"

definition find_text :: "forest \<Rightarrow> elem \<Rightarrow> qname \<Rightarrow> error + string option" where
  "find_text F e t =
     (case find_elem F e [Child t] of None \<Rightarrow> Inl AttributeError | Some c \<Rightarrow> Inr (etext c))"

text \<open>A dictionary display evaluates its values in order; the first exception ends it.\<close>

fun dict_of :: "(string \<times> (error + string option)) list \<Rightarrow> error + pydict" where
  "dict_of [] = Inr []"
| "dict_of ((k, Inl e) # kvs) = Inl e"
| "dict_of ((k, Inr v) # kvs) =
     (case dict_of kvs of Inl e \<Rightarrow> Inl e | Inr d \<Rightarrow> Inr ((k, v) # d))"

definition get_frbr_work :: "forest \<Rightarrow> elem \<Rightarrow> error + pydict option" where
  "get_frbr_work F identification =
     (case find_elem F identification [Child (akn ''FRBRWork'')] of
        None \<Rightarrow> Inr None
      | Some frbr_work \<Rightarrow>
          bind_err (dict_of
            [(''FRBRthis'', find_get F frbr_work (akn ''FRBRthis'') ''value''),
             (''FRBRuri'', find_get F frbr_work (akn ''FRBRuri'') ''value''),
             (''FRBRalias'', find_get F frbr_work (akn ''FRBRalias'') ''value''),
             (''FRBRdate'', find_get F frbr_work (akn ''FRBRdate'') ''date''),
             (''FRBRauthor'', find_get F frbr_work (akn ''FRBRauthor'') ''href''),
             (''FRBRcountry'', find_get F frbr_work (akn ''FRBRcountry'') ''value''),
             (''FRBRnumber'', find_get F frbr_work (akn ''FRBRnumber'') ''value'')])
            (\<lambda>d. Inr (Some d)))"

definition get_frbr_expression :: "forest \<Rightarrow> elem \<Rightarrow> error + pydict option" where
  "get_frbr_expression F identification =
     (case find_elem F identification [Child (akn ''FRBRExpression'')] of
        None \<Rightarrow> Inr None
      | Some frbr_expression \<Rightarrow>
          bind_err (dict_of
            [(''FRBRthis'', find_get F frbr_expression (akn ''FRBRthis'') ''value''),
             (''FRBRuri'', find_get F frbr_expression (akn ''FRBRuri'') ''value''),
             (''FRBRdate'', find_get F frbr_expression (akn ''FRBRdate'') ''date''),
             (''FRBRauthor'', find_get F frbr_expression (akn ''FRBRauthor'') ''href''),
             (''FRBRlanguage'', find_get F frbr_expression (akn ''FRBRlanguage'') ''language'')])
            (\<lambda>d. Inr (Some d)))"

definition get_frbr_manifestation :: "forest \<Rightarrow> elem \<Rightarrow> error + pydict option" where
  "get_frbr_manifestation F identification =
     (case find_elem F identification [Child (akn ''FRBRManifestation'')] of
        None \<Rightarrow> Inr None
      | Some frbr_manifestation \<Rightarrow>
          bind_err (dict_of
            [(''FRBRthis'', find_get F frbr_manifestation (akn ''FRBRthis'') ''value''),
             (''FRBRuri'', find_get F frbr_manifestation (akn ''FRBRuri'') ''value''),
             (''FRBRdate'', find_get F frbr_manifestation (akn ''FRBRdate'') ''date''),
             (''FRBRauthor'', find_get F frbr_manifestation (akn ''FRBRauthor'') ''href'')])
            (\<lambda>d. Inr (Some d)))"

record frbr_data =
  work :: "pydict option"
  expression :: "pydict option"
  manifestation :: "pydict option"

definition get_meta_identification :: "parser \<Rightarrow> error + frbr_data option" where
  "get_meta_identification s =
     bind_err (self_root s) (\<lambda>r.
       case find_elem (doc s) r [Self, Desc (akn ''meta''), Child (akn ''identification'')] of
         None \<Rightarrow> Inr None
       | Some identification \<Rightarrow>
           bind_err (get_frbr_work (doc s) identification) (\<lambda>w.
           bind_err (get_frbr_expression (doc s) identification) (\<lambda>e.
           bind_err (get_frbr_manifestation (doc s) identification) (\<lambda>m.
             Inr (Some \<lparr>work = w, expression = e, manifestation = m\<rparr>)))))"

definition get_meta_references :: "parser \<Rightarrow> error + pydict option" where
  "get_meta_references s =
     bind_err (self_root s) (\<lambda>r.
       case find_elem (doc s) r
              [Self, Desc (akn ''meta''), Child (akn ''references''),
               Child (akn ''TLCOrganization'')] of
         None \<Rightarrow> Inr None
       | Some references \<Rightarrow>
           Inr (Some [(''eId'', get_attr references ''eId''),
                      (''href'', get_attr references ''href''),
                      (''showAs'', get_attr references ''showAs'')]))"

definition get_meta_proprietary :: "parser \<Rightarrow> error + pydict option" where
  "get_meta_proprietary s =
     bind_err (self_root s) (\<lambda>r.
       case find_elem (doc s) r [Self, Desc (akn ''meta''), Child (akn ''proprietary'')] of
         None \<Rightarrow> Inr None
       | Some proprietary \<Rightarrow>
           (case find_elem (doc s) proprietary [Child (fmx ''DOCUMENT.REF'')] of
              None \<Rightarrow> Inr None
            | Some document_ref \<Rightarrow>
                bind_err (dict_of
                  [(''file'', Inr (get_attr document_ref ''FILE'')),
                   (''coll'', find_text (doc s) document_ref (fmx ''COLL'')),
                   (''year'', find_text (doc s) document_ref (fmx ''YEAR'')),
                   (''lg_doc'', find_text (doc s) proprietary (fmx ''LG.DOC'')),
                   (''no_seq'', find_text (doc s) proprietary (fmx ''NO.SEQ''))])
                  (\<lambda>d. Inr (Some d))))"

subsection \<open>Preface and preamble\<close>

definition note_path :: path where
  "note_path = [Self, Desc (akn ''authorialNote'')]"

definition get_preface :: "parser \<Rightarrow> error + string list option" where
  "get_preface s =
     bind_err (self_root s) (\<lambda>r.
       case find_elem (doc s) r [Self, Desc (akn ''preface'')] of
         None \<Rightarrow> Inr None
       | Some preface \<Rightarrow>
           Inr (Some (map (\<lambda>p. strip (concat (itertext p)))
                        (findall (doc s) preface [Child (akn ''p'')]))))"

definition get_preamble_formula :: "parser \<Rightarrow> error + string option" where
  "get_preamble_formula s =
     bind_err (self_root s) (\<lambda>r.
       case find_elem (doc s) r [Self, Desc (akn ''preamble''), Child (akn ''formula'')] of
         None \<Rightarrow> Inr None
       | Some formula \<Rightarrow>
           Inr (Some (join '' '' (map (\<lambda>p. strip (or_empty (etext p)))
                        (filter (\<lambda>p. truthy (etext p))
                           (findall (doc s) formula [Child (akn ''p'')]))))))"

text \<open>
  The two extractors below strip the notes from their section in place, so they return
  the parser with the new forest.  Each citation is the dictionary with the one key
  \<^verbatim>\<open>citation_text\<close>; the model keeps its value.
\<close>

definition get_preamble_citations :: "parser \<Rightarrow> error + (string list option \<times> parser)" where
  "get_preamble_citations s =
     bind_err (self_root s) (\<lambda>r.
       case find_elem (doc s) r [Self, Desc (akn ''preamble''), Child (akn ''citations'')] of
         None \<Rightarrow> Inr (None, s)
       | Some citations_section \<Rightarrow>
           bind_err (remove_node (doc s) (Some (eid citations_section)) note_path) (\<lambda>F'.
           bind_err (deref F' (eid citations_section)) (\<lambda>section'.
             Inr (Some (map (\<lambda>citation. strip (concat (itertext citation)))
                          (findall F' section' [Child (akn ''citation'')])),
                  s\<lparr>doc := F'\<rparr>))))"

text \<open>\<^verbatim>\<open>str(x)\<close> of an optional string\<close>

fun str :: "string option \<Rightarrow> string" where
  "str None = ''None''"
| "str (Some v) = v"

definition intro_entry :: "forest \<Rightarrow> elem \<Rightarrow> recital_entry" where
  "intro_entry F recitals_intro =
     \<lparr>recital_text = join '' '' (map (\<lambda>p. strip (or_empty (etext p)))
                         (filter (\<lambda>p. truthy (etext p))
                            (findall F recitals_intro [Child (akn ''p'')]))),
      re_eId = get_attr recitals_intro ''eId''\<rparr>"

definition recital_of :: "forest \<Rightarrow> elem \<Rightarrow> recital_entry" where
  "recital_of F recital =
     \<lparr>recital_text = re_sub_ws (join '' '' (map (\<lambda>p. strip (join '' '' (itertext p)))
                                    (findall F recital [Child (akn ''p'')]))),
      re_eId = Some (str (get_attr recital ''eId''))\<rparr>"

definition get_preamble_recitals :: "parser \<Rightarrow> error + (recital_entry list option \<times> parser)" where
  "get_preamble_recitals s =
     bind_err (self_root s) (\<lambda>r.
       case find_elem (doc s) r [Self, Desc (akn ''preamble''), Child (akn ''recitals'')] of
         None \<Rightarrow> Inr (None, s)
       | Some recitals_section \<Rightarrow>
           (case find_elem (doc s) recitals_section [Child (akn ''intro'')] of
              None \<Rightarrow> Inl AttributeError
            | Some recitals_intro \<Rightarrow>
                let recitals_text = [intro_entry (doc s) recitals_intro] in
                bind_err (remove_node (doc s) (Some (eid recitals_section)) note_path) (\<lambda>F'.
                bind_err (deref F' (eid recitals_section)) (\<lambda>section'.
                  Inr (Some (recitals_text @
                             map (recital_of F') (findall F' section' [Child (akn ''recital'')])),
                       s\<lparr>doc := F'\<rparr>)))))"

record preamble_data =
  formula :: "string option"
  citations :: "string list option"
  recitals :: "recital_entry list option"

definition get_preamble :: "parser \<Rightarrow> error + (preamble_data \<times> parser)" where
  "get_preamble s =
     bind_err (get_preamble_formula s) (\<lambda>f.
     bind_err (get_preamble_citations s) (\<lambda>(c, s1).
     bind_err (get_preamble_recitals s1) (\<lambda>(r, s2).
       Inr (\<lparr>formula = f, citations = c, recitals = r\<rparr>, s2))))"

subsection \<open>Act and body\<close>

definition find_or :: "forest \<Rightarrow> elem \<Rightarrow> path \<Rightarrow> path \<Rightarrow> elem option" where
  "find_or F r p fallback = (case find_elem F r p of None \<Rightarrow> find_elem F r fallback | Some e \<Rightarrow> Some e)"

definition get_act :: "parser \<Rightarrow> error + parser" where
  "get_act s =
     bind_err (self_root s) (\<lambda>r.
       Inr (s\<lparr>act := Some (map_option eid
              (find_or (doc s) r [Self, Desc (akn ''act'')] [Self, Desc (plain ''act'')]))\<rparr>))"

definition get_body :: "parser \<Rightarrow> error + parser" where
  "get_body s =
     bind_err (self_root s) (\<lambda>r.
       Inr (s\<lparr>body := Some (map_option eid
              (find_or (doc s) r [Self, Desc (akn ''body'')] [Self, Desc (plain ''body'')]))\<rparr>))"

subsection \<open>Chapters\<close>

definition chapter_of :: "forest \<Rightarrow> elem \<Rightarrow> chapter_entry" where
  "chapter_of F chapter =
     (let chapter_num = find_elem F chapter [Child (akn ''num'')];
          chapter_heading = find_elem F chapter [Child (akn ''heading'')]
      in \<lparr>ch_eId = get_attr chapter ''eId'',
          chapter_num = (case chapter_num of Some n \<Rightarrow> etext n | None \<Rightarrow> None),
          chapter_heading = (case chapter_heading of
                               Some h \<Rightarrow> Some (strip (concat (itertext h)))
                             | None \<Rightarrow> None)\<rparr>)"

definition get_chapters :: "parser \<Rightarrow> error + parser" where
  "get_chapters s =
     bind_err (self_root s) (\<lambda>r.
       Inr (s\<lparr>chapters := Some (map (chapter_of (doc s))
                                  (findall (doc s) r [Self, Desc (akn ''chapter'')]))\<rparr>))"

subsection \<open>Articles\<close>

text \<open>
  The element with identity \<open>i\<close> followed by its ancestors, the nearest first: the
  elements that the loop of \<^verbatim>\<open>get_text_by_eId\<close> visits by following \<^verbatim>\<open>getparent()\<close>
  until it returns \<^verbatim>\<open>None\<close>.
\<close>

fun ancestors_or_self :: "nat \<Rightarrow> forest \<Rightarrow> elem list" where
  "ancestors_or_self i [] = []"
| "ancestors_or_self i (Elem j t a x cs l # es) =
     (if i = j then [Elem j t a x cs l]
      else case ancestors_or_self i cs of
             [] \<Rightarrow> ancestors_or_self i es
           | c # up \<Rightarrow> (c # up) @ [Elem j t a x cs l])"

text \<open>The \<^verbatim>\<open>while\<close> loop: the value of \<^verbatim>\<open>eId\<close> when it ends.\<close>

fun walk_up :: "elem list \<Rightarrow> string option" where
  "walk_up [] = None"
| "walk_up (current_element # up) =
     (let eId = get_attr current_element ''eId''
      in if truthy eId then eId else if up = [] then eId else walk_up up)"

text \<open>The \<^verbatim>\<open>for\<close> loop, with the list \<^verbatim>\<open>elements\<close> built so far.\<close>

fun text_loop :: "forest \<Rightarrow> elem list \<Rightarrow> text_entry list \<Rightarrow> text_entry list" where
  "text_loop F [] elements = elements"
| "text_loop F (p # ps) elements =
     (let eId = walk_up (ancestors_or_self (eid p) F)
      in if truthy eId then
           text_loop F ps
             (elements @ [\<lparr>te_eId = or_empty eId, te_text = strip (concat (itertext p))\<rparr>])
         else text_loop F ps elements)"

definition get_text_by_eId :: "forest \<Rightarrow> elem \<Rightarrow> text_entry list" where
  "get_text_by_eId F node = text_loop F (findall F node [Self, Desc (akn ''p'')]) []"

definition article_title_element :: "forest \<Rightarrow> elem \<Rightarrow> elem option" where
  "article_title_element F article =
     (case find_elem F article [Child (akn ''heading'')] of
        Some h \<Rightarrow> Some h
      | None \<Rightarrow>
          (if length (findall F article [Child (akn ''num'')]) > 1
           then Some (findall F article [Child (akn ''num'')] ! 1) else None))"

definition article_of :: "forest \<Rightarrow> elem \<Rightarrow> article_entry" where
  "article_of F article =
     (let article_num = find_elem F article [Child (akn ''num'')]
      in \<lparr>ar_eId = get_attr article ''eId'',
          article_num = (case article_num of Some n \<Rightarrow> etext n | None \<Rightarrow> None),
          article_title = (case article_title_element F article of
                             Some e \<Rightarrow> etext e | None \<Rightarrow> None),
          article_text = get_text_by_eId F article\<rparr>)"

text \<open>
  \<^verbatim>\<open>get_articles\<close> reads \<^verbatim>\<open>self.body\<close>, strips the notes from it in place, and returns
  the list it also stores in \<^verbatim>\<open>self.articles\<close>.
\<close>

definition get_articles :: "parser \<Rightarrow> error + (article_entry list \<times> parser)" where
  "get_articles s =
     (case body s of
        None \<Rightarrow> Inl AttributeError
      | Some b \<Rightarrow>
          bind_err (remove_node (doc s) b note_path) (\<lambda>F'.
            case b of
              None \<Rightarrow> Inl AttributeError
            | Some i \<Rightarrow>
                bind_err (deref F' i) (\<lambda>body'.
                  let arts = map (article_of F') (findall F' body' [Self, Desc (akn ''article'')])
                  in Inr (arts, s\<lparr>doc := F', articles := Some arts\<rparr>))))"

section \<open>Notions of the specification\<close>

text \<open>
  The paragraph grouping in the words of the specification: for every paragraph beneath
  the node, in document order, the nearest element among the paragraph and its ancestors
  that carries a non-empty identifier; the pair of that identifier and the trimmed text
  of the paragraph if there is one, nothing otherwise.
\<close>

definition has_eId :: "elem \<Rightarrow> bool" where
  "has_eId e = truthy (get_attr e ''eId'')"

definition spec_text_by_eId :: "forest \<Rightarrow> elem \<Rightarrow> text_entry list" where
  "spec_text_by_eId F node =
     List.map_filter
       (\<lambda>p. case List.find has_eId (ancestors_or_self (eid p) F) of
               None \<Rightarrow> None
             | Some a \<Rightarrow> Some \<lparr>te_eId = or_empty (get_attr a ''eId''),
                               te_text = strip (concat (itertext p))\<rparr>)
       (filter (\<lambda>e. etag e = akn ''p'') (iterdescendants node))"

text \<open>
  The same, computed from the top: an element passes to its children its own identifier
  if it has a non-empty one, and otherwise the one it inherited.
\<close>

fun entries_below :: "string option \<Rightarrow> elem list \<Rightarrow> text_entry list" where
  "entries_below inh [] = []"
| "entries_below inh (Elem i t a x cs l # es) =
     (let own = (if has_eId (Elem i t a x cs l) then get_attr (Elem i t a x cs l) ''eId'' else inh)
      in (if t = akn ''p'' \<and> truthy own
          then [\<lparr>te_eId = or_empty own, te_text = strip (concat (itertext (Elem i t a x cs l)))\<rparr>]
          else [])
         @ entries_below own cs)
     @ entries_below inh es"

definition nearest_eId :: "forest \<Rightarrow> nat \<Rightarrow> string option" where
  "nearest_eId F i = map_option (\<lambda>a. or_empty (get_attr a ''eId''))
                       (List.find has_eId (ancestors_or_self i F))"

text \<open>The entry of one paragraph, or nothing.\<close>

definition entry_of :: "forest \<Rightarrow> elem \<Rightarrow> text_entry option" where
  "entry_of F p =
     (case List.find has_eId (ancestors_or_self (eid p) F) of
        None \<Rightarrow> None
      | Some a \<Rightarrow> Some \<lparr>te_eId = or_empty (get_attr a ''eId''),
                        te_text = strip (concat (itertext p))\<rparr>)"

text \<open>
  The keys of the dictionary that \<^verbatim>\<open>_get_frbr_work\<close> builds, each with the child element
  and the attribute it is read from.
\<close>

definition frbr_work_fields :: "(string \<times> qname \<times> string) list" where
  "frbr_work_fields =
     [(''FRBRthis'', akn ''FRBRthis'', ''value''),
      (''FRBRuri'', akn ''FRBRuri'', ''value''),
      (''FRBRalias'', akn ''FRBRalias'', ''value''),
      (''FRBRdate'', akn ''FRBRdate'', ''date''),
      (''FRBRauthor'', akn ''FRBRauthor'', ''href''),
      (''FRBRcountry'', akn ''FRBRcountry'', ''value''),
      (''FRBRnumber'', akn ''FRBRnumber'', ''value'')]"

text \<open>The same for \<^verbatim>\<open>_get_frbr_expression\<close> and \<^verbatim>\<open>_get_frbr_manifestation\<close>.\<close>

definition frbr_expression_fields :: "(string \<times> qname \<times> string) list" where
  "frbr_expression_fields =
     [(''FRBRthis'', akn ''FRBRthis'', ''value''),
      (''FRBRuri'', akn ''FRBRuri'', ''value''),
      (''FRBRdate'', akn ''FRBRdate'', ''date''),
      (''FRBRauthor'', akn ''FRBRauthor'', ''href''),
      (''FRBRlanguage'', akn ''FRBRlanguage'', ''language'')]"

definition frbr_manifestation_fields :: "(string \<times> qname \<times> string) list" where
  "frbr_manifestation_fields =
     [(''FRBRthis'', akn ''FRBRthis'', ''value''),
      (''FRBRuri'', akn ''FRBRuri'', ''value''),
      (''FRBRdate'', akn ''FRBRdate'', ''date''),
      (''FRBRauthor'', akn ''FRBRauthor'', ''href'')]"

text \<open>
  A string in which whitespace runs are collapsed: every whitespace character is a space
  and is not followed by another whitespace character.
\<close>

fun single_spaced :: "string \<Rightarrow> bool" where
  "single_spaced [] = True"
| "single_spaced [c] = (is_space c \<longrightarrow> c = CHR '' '')"
| "single_spaced (c # d # cs) =
     ((is_space c \<longrightarrow> c = CHR '' '' \<and> \<not> is_space d) \<and> single_spaced (d # cs))"

section \<open>Notions for the proofs about removal\<close>

text \<open>
  The identities of all elements of a forest, in document order; the identities of the
  elements that have a parent; the identities and tags of the proper descendants, and of
  the children, of the elements with identity \<open>r\<close>; the identities in the subtrees whose
  root has identity \<open>k\<close>.  In a well-formed forest there is one element with a given identity.
\<close>

definition ids :: "forest \<Rightarrow> nat list" where
  "ids F = map eid (iter F)"

fun child_ids :: "forest \<Rightarrow> nat list" where
  "child_ids [] = []"
| "child_ids (Elem j t a x cs l # es) = map eid cs @ child_ids cs @ child_ids es"

fun under :: "nat \<Rightarrow> forest \<Rightarrow> (nat \<times> qname) list" where
  "under r [] = []"
| "under r (Elem j t a x cs l # es) =
     (if j = r then map (\<lambda>e. (eid e, etag e)) (iter cs) else under r cs) @ under r es"

fun kids :: "nat \<Rightarrow> forest \<Rightarrow> (nat \<times> qname) list" where
  "kids r [] = []"
| "kids r (Elem j t a x cs l # es) =
     (if j = r then map (\<lambda>e. (eid e, etag e)) cs else kids r cs) @ kids r es"

fun sub_ids :: "nat \<Rightarrow> forest \<Rightarrow> nat list" where
  "sub_ids k [] = []"
| "sub_ids k (Elem j t a x cs l # es) =
     (if j = k then j # map eid (iter cs) else sub_ids k cs) @ sub_ids k es"

section \<open>Example documents\<close>

text \<open>\<^verbatim>\<open><p>foo <authorialNote>X</authorialNote> bar</p>\<close>\<close>

definition ex_foo_bar :: forest where
  "ex_foo_bar =
     [Elem 0 (akn ''p'') [] (Some ''foo '')
        [Elem 1 (akn ''authorialNote'') [] (Some ''X'') [] (Some '' bar'')] None]"

text \<open>\<^verbatim>\<open><p><i>a</i><authorialNote>X</authorialNote> bar <b>c</b> end</p>\<close>\<close>

definition ex_between :: forest where
  "ex_between =
     [Elem 0 (akn ''p'') [] None
        [Elem 1 (akn ''i'') [] (Some ''a'') [] None,
         Elem 2 (akn ''authorialNote'') [] (Some ''X'') [] (Some '' bar ''),
         Elem 3 (akn ''b'') [] (Some ''c'') [] (Some '' end'')] None]"

text \<open>\<^verbatim>\<open><p><authorialNote/><authorialNote/></p>\<close>\<close>

definition ex_two_notes :: forest where
  "ex_two_notes =
     [Elem 0 (akn ''p'') [] None
        [Elem 1 (akn ''authorialNote'') [] None [] None,
         Elem 2 (akn ''authorialNote'') [] None [] None] None]"

text \<open>A document with a preamble and nothing in it, and no preface.\<close>

definition empty_doc :: elem where
  "empty_doc =
     Elem 0 (akn ''akomaNtoso'') [] None
       [Elem 1 (akn ''act'') [] None [Elem 2 (akn ''preamble'') [] None [] None] None] None"

definition ex_empty :: parser where
  "ex_empty = get_root empty_doc init"

text \<open>A recitals section with one recital and no intro.\<close>

definition no_intro_section :: elem where
  "no_intro_section =
     Elem 2 (akn ''recitals'') [] None
       [Elem 3 (akn ''recital'') [(''eId'', ''rec_1'')] None
          [Elem 4 (akn ''p'') [] (Some ''(1) text'') [] None] None] None"

definition no_intro_doc :: elem where
  "no_intro_doc =
     Elem 0 (akn ''akomaNtoso'') [] None
       [Elem 1 (akn ''preamble'') [] None [no_intro_section] None] None"

definition ex_no_intro :: parser where
  "ex_no_intro = get_root no_intro_doc init"

text \<open>
  Three chapters: one outside the body with a number only, one with a heading only (and
  a note inside the heading), one with neither and no identifier.
\<close>

definition chapters_doc :: elem where
  "chapters_doc =
     Elem 0 (akn ''akomaNtoso'') [] None
       [Elem 1 (akn ''preface'') [] None
          [Elem 2 (akn ''chapter'') [(''eId'', ''chp_0'')] None
             [Elem 3 (akn ''num'') [] (Some ''Chapter 0'') [] None] None] None,
        Elem 4 (akn ''body'') [] None
          [Elem 5 (akn ''chapter'') [(''eId'', ''chp_1'')] None
             [Elem 6 (akn ''heading'') [] (Some '' General '')
                [Elem 7 (akn ''authorialNote'') [] (Some ''n'') [] (Some '' provisions '')] None]
             None,
           Elem 8 (akn ''chapter'') [] None [] None] None] None"

definition ex_chapters :: parser where
  "ex_chapters = get_root chapters_doc init"

text \<open>
  An identification block whose \<^verbatim>\<open>FRBRthis\<close> has no \<^verbatim>\<open>value\<close> attribute, and a
  proprietary block whose \<^verbatim>\<open>YEAR\<close> has no text and whose \<^verbatim>\<open>DOCUMENT.REF\<close> has no
  \<^verbatim>\<open>FILE\<close> attribute.
\<close>

definition work_elem :: elem where
  "work_elem =
     Elem 3 (akn ''FRBRWork'') [] None
       [Elem 4 (akn ''FRBRthis'') [] None [] None,
        Elem 5 (akn ''FRBRuri'') [(''value'', ''/akn/eu/act/2016/679'')] None [] None,
        Elem 6 (akn ''FRBRalias'') [(''value'', ''32016R0679'')] None [] None,
        Elem 7 (akn ''FRBRdate'') [(''date'', ''2016-04-27'')] None [] None,
        Elem 8 (akn ''FRBRauthor'') [(''href'', ''#ep'')] None [] None,
        Elem 9 (akn ''FRBRcountry'') [(''value'', ''eu'')] None [] None,
        Elem 10 (akn ''FRBRnumber'') [(''value'', ''679'')] None [] None] None"

definition ident_elem :: elem where
  "ident_elem = Elem 2 (akn ''identification'') [] None [work_elem] None"

definition meta_doc :: elem where
  "meta_doc =
     Elem 0 (akn ''akomaNtoso'') [] None
       [Elem 1 (akn ''meta'') [] None
          [ident_elem,
           Elem 11 (akn ''proprietary'') [] None
             [Elem 12 (fmx ''DOCUMENT.REF'') [] None
                [Elem 13 (fmx ''COLL'') [] (Some ''L'') [] None,
                 Elem 14 (fmx ''YEAR'') [] None [] None] None,
              Elem 15 (fmx ''LG.DOC'') [] (Some ''EN'') [] None,
              Elem 16 (fmx ''NO.SEQ'') [] (Some ''0001'') [] None] None] None] None"

definition ex_meta :: parser where
  "ex_meta = get_root meta_doc init"

text \<open>The same work element without its \<^verbatim>\<open>FRBRuri\<close> child.\<close>

definition work_elem_no_uri :: elem where
  "work_elem_no_uri =
     Elem 3 (akn ''FRBRWork'') [] None
       [Elem 4 (akn ''FRBRthis'') [(''value'', ''/akn/eu/act/2016/679/!main'')] None [] None,
        Elem 6 (akn ''FRBRalias'') [(''value'', ''32016R0679'')] None [] None,
        Elem 7 (akn ''FRBRdate'') [(''date'', ''2016-04-27'')] None [] None,
        Elem 8 (akn ''FRBRauthor'') [(''href'', ''#ep'')] None [] None,
        Elem 9 (akn ''FRBRcountry'') [(''value'', ''eu'')] None [] None,
        Elem 10 (akn ''FRBRnumber'') [(''value'', ''679'')] None [] None] None"

definition ex_meta_no_uri :: forest where
  "ex_meta_no_uri = [Elem 2 (akn ''identification'') [] None [work_elem_no_uri] None]"

text \<open>
  An identification block with the work of \<open>work_elem\<close>, an expression without its
  \<^verbatim>\<open>FRBRlanguage\<close> child, and a manifestation whose \<^verbatim>\<open>FRBRauthor\<close> has no \<^verbatim>\<open>href\<close>
  attribute; and a references block whose organization has an \<^verbatim>\<open>eId\<close> only.
\<close>

definition expression_no_language :: elem where
  "expression_no_language =
     Elem 20 (akn ''FRBRExpression'') [] None
       [Elem 21 (akn ''FRBRthis'') [(''value'', ''/akn/eu/act/2016/679/eng@/!main'')] None [] None,
        Elem 22 (akn ''FRBRuri'') [(''value'', ''/akn/eu/act/2016/679/eng@'')] None [] None,
        Elem 23 (akn ''FRBRdate'') [(''date'', ''2016-04-27'')] None [] None,
        Elem 24 (akn ''FRBRauthor'') [(''href'', ''#ep'')] None [] None] None"

definition manifestation_no_href :: elem where
  "manifestation_no_href =
     Elem 30 (akn ''FRBRManifestation'') [] None
       [Elem 31 (akn ''FRBRthis'') [(''value'', ''/akn/eu/act/2016/679/eng@/!main.xml'')] None [] None,
        Elem 32 (akn ''FRBRuri'') [(''value'', ''/akn/eu/act/2016/679/eng@.xml'')] None [] None,
        Elem 33 (akn ''FRBRdate'') [(''date'', ''2016-05-04'')] None [] None,
        Elem 34 (akn ''FRBRauthor'') [] None [] None] None"

definition full_ident :: elem where
  "full_ident =
     Elem 2 (akn ''identification'') [] None
       [work_elem, expression_no_language, manifestation_no_href] None"

definition organization :: elem where
  "organization = Elem 41 (akn ''TLCOrganization'') [(''eId'', ''ep'')] None [] None"

definition full_meta_doc :: elem where
  "full_meta_doc =
     Elem 0 (akn ''akomaNtoso'') [] None
       [Elem 1 (akn ''meta'') [] None
          [full_ident, Elem 40 (akn ''references'') [] None [organization] None] None] None"

definition ex_full_meta :: parser where
  "ex_full_meta = get_root full_meta_doc init"

text \<open>A proprietary block without the \<^verbatim>\<open>YEAR\<close> child.\<close>

definition proprietary_no_year :: elem where
  "proprietary_no_year =
     Elem 11 (akn ''proprietary'') [] None
       [Elem 12 (fmx ''DOCUMENT.REF'') [(''FILE'', ''L_2016119EN.xml'')] None
          [Elem 13 (fmx ''COLL'') [] (Some ''L'') [] None] None,
        Elem 15 (fmx ''LG.DOC'') [] (Some ''EN'') [] None,
        Elem 16 (fmx ''NO.SEQ'') [] (Some ''0001'') [] None] None"

definition ex_no_year :: parser where
  "ex_no_year = get_root (Elem 0 (akn ''akomaNtoso'') [] None
                   [Elem 1 (akn ''meta'') [] None [proprietary_no_year] None] None) init"

text \<open>
  A body with three articles: a heading and two numbers; two numbers and no heading; one
  number and no heading.
\<close>

definition articles_doc :: elem where
  "articles_doc =
     Elem 0 (akn ''akomaNtoso'') [] None
       [Elem 1 (akn ''body'') [] None
          [Elem 2 (akn ''article'') [(''eId'', ''art_1'')] None
             [Elem 3 (akn ''num'') [] (Some ''Article 1'') [] None,
              Elem 4 (akn ''num'') [] (Some ''Second number'') [] None,
              Elem 5 (akn ''heading'') [] (Some ''Subject matter'') [] None] None,
           Elem 6 (akn ''article'') [(''eId'', ''art_2'')] None
             [Elem 7 (akn ''num'') [] (Some ''Article 2'') [] None,
              Elem 8 (akn ''num'') [] (Some ''Scope'') [] None] None,
           Elem 9 (akn ''article'') [(''eId'', ''art_3'')] None
             [Elem 10 (akn ''num'') [] (Some ''Article 3'') [] None] None] None] None"

definition ex_articles :: parser where
  "ex_articles = (get_root articles_doc init)\<lparr>body := Some (Some 1)\<rparr>"

text \<open>
  The chapters of \<open>ex_chapters\<close> read right after loading, and read after the body was
  located and the articles were extracted.
\<close>

definition chapters_at_once :: "error + chapter_entry list option" where
  "chapters_at_once = map_sum id chapters (get_chapters ex_chapters)"

definition chapters_after_articles :: "error + chapter_entry list option" where
  "chapters_after_articles =
     map_sum id chapters
       (bind_err (get_body ex_chapters) (\<lambda>s1.
        bind_err (get_articles s1) (\<lambda>(arts, s2). get_chapters s2)))"

text \<open>
  A recitals section: an intro with a note inside its first paragraph, a recital with a
  note inside its first paragraph, and an empty recital without identifier.
\<close>

definition recitals_section :: elem where
  "recitals_section =
     Elem 2 (akn ''recitals'') [] None
       [Elem 3 (akn ''intro'') [(''eId'', ''intro_1'')] None
          [Elem 4 (akn ''p'') [] (Some '' Whereas: '')
             [Elem 5 (akn ''authorialNote'') [] (Some ''n0'') [] (Some ''tail'')] None,
           Elem 6 (akn ''p'') [] None [] None] None,
        Elem 7 (akn ''recital'') [(''eId'', ''rec_1'')] None
          [Elem 8 (akn ''p'') [] (Some ''(1) First'')
             [Elem 9 (akn ''authorialNote'') [] (Some ''n1'') [] (Some ''   recital '')] None,
           Elem 10 (akn ''p'') [] (Some ''second  par'') [] None] None,
        Elem 11 (akn ''recital'') [] None [] None] None"

definition recitals_doc :: elem where
  "recitals_doc =
     Elem 0 (akn ''akomaNtoso'') [] None
       [Elem 1 (akn ''preamble'') [] None [recitals_section] None] None"

definition ex_recitals :: parser where
  "ex_recitals = get_root recitals_doc init"

text \<open>
  An article with two identified paragraphs holding three text paragraphs (one of them
  with an empty identifier of its own), a content block without identifier, and a text
  paragraph directly under the root, which has no identified ancestor.
\<close>

definition grouping_doc :: elem where
  "grouping_doc =
     Elem 0 (akn ''akomaNtoso'') [] None
       [Elem 1 (akn ''p'') [] (Some ''orphan'') [] None,
        Elem 2 (akn ''article'') [(''eId'', ''art_1'')] None
          [Elem 3 (akn ''paragraph'') [(''eId'', ''1'')] None
             [Elem 4 (akn ''p'') [] (Some '' p1 '') [] None,
              Elem 5 (akn ''p'') [(''eId'', '''')] (Some ''p'') [Elem 10 (akn ''b'') [] (Some ''2'') [] None] None] None,
           Elem 6 (akn ''paragraph'') [(''eId'', ''2'')] None
             [Elem 7 (akn ''p'') [] (Some ''p3'') [] None] None,
           Elem 8 (akn ''content'') [] None
             [Elem 9 (akn ''p'') [] (Some ''p4'') [] None] None] None] None"

text \<open>
  A recital whose paragraph has inline markup inside a word:
  \<^verbatim>\<open><p>Regu<i>lation</i>s</p>\<close>.
\<close>

definition inline_p :: elem where
  "inline_p =
     Elem 6 (akn ''p'') [] (Some ''Regu'') [Elem 7 (akn ''i'') [] (Some ''lation'') [] (Some ''s'')] None"

definition inline_doc :: elem where
  "inline_doc =
     Elem 0 (akn ''akomaNtoso'') [] None
       [Elem 1 (akn ''preamble'') [] None
          [Elem 2 (akn ''recitals'') [] None
             [Elem 3 (akn ''intro'') [(''eId'', ''intro_1'')] None
                [Elem 4 (akn ''p'') [] (Some ''Whereas:'') [] None] None,
              Elem 5 (akn ''recital'') [(''eId'', ''rec_1'')] None [inline_p] None] None] None] None"

definition ex_inline :: parser where
  "ex_inline = get_root inline_doc init"

section \<open>Properties\<close>

subsection \<open>Paths and errors\<close>

lemma findall_child: "findall F e [Child t] = filter (\<lambda>c. etag c = t) (echildren e)"
  by (simp add: findall_def)

lemma findall_desc: "findall F e [Self, Desc t] = filter (\<lambda>c. etag c = t) (iterdescendants e)"
  by (simp add: findall_def)

lemma findall_desc_child:
  "findall F e [Self, Desc a, Child b] =
     concat (map (\<lambda>d. filter (\<lambda>c. etag c = b) (echildren d))
               (filter (\<lambda>c. etag c = a) (iterdescendants e)))"
  by (simp add: findall_def)

lemma find_elem_None: "find_elem F e p = None \<longleftrightarrow> findall F e p = []"
  by (simp add: find_elem_def split: list.splits)

lemma find_elem_child:
  "find_elem F e [Child t] =
     (case filter (\<lambda>c. etag c = t) (echildren e) of [] \<Rightarrow> None | c # _ \<Rightarrow> Some c)"
  by (simp add: find_elem_def findall_child)

lemma absent_under_find:
  "(\<forall>d \<in> set (iterdescendants r). etag d = a \<longrightarrow> (\<forall>c \<in> set (echildren d). etag c \<noteq> b))
    \<Longrightarrow> find_elem F r [Self, Desc a, Child b] = None"
  by (auto simp: find_elem_None findall_desc_child filter_empty_conv)

lemma bind_err_simps [simp]: "bind_err (Inl e) f = Inl e" "bind_err (Inr x) f = f x"
  by (simp_all add: bind_err_def)

lemma akn_eq [simp]: "akn a = akn b \<longleftrightarrow> a = b"
  by (simp add: akn_def)

text \<open>The no-break space and the next-line character are whitespace.\<close>

lemma strip_no_break_space: "strip [CHR 0xA0, CHR ''a'', CHR 0x85] = ''a''"
  by (simp add: strip_def is_space_def)

lemma re_sub_ws_no_break_space: "re_sub_ws [CHR ''a'', CHR 0xA0, CHR 0x20, CHR 0x85, CHR ''b''] = ''a b''"
  by (simp add: is_space_def)

lemmas eval_simps = remove_node_def remove_item_def remove_child_def findall_def note_path_def
  iterdescendants_def itertext_def

subsection \<open>Annotation stripping on examples\<close>

text \<open>
  Claim C2.  The claim: the tail of a removed element is appended to the tail of its
  preceding sibling if there is one, otherwise to the parent's text.  The code appends it
  to the tail of the parent's last remaining child, whichever that is.  In
  \<^verbatim>\<open><p><i>a</i><authorialNote>X</authorialNote> bar <b>c</b> end</p>\<close> the note's tail
  \<^verbatim>\<open>" bar "\<close> does not go to the preceding sibling \<^verbatim>\<open>i\<close>: it goes behind the tail of the
  following sibling \<^verbatim>\<open>b\<close>, so the paragraph reads \<^verbatim>\<open>"ac end bar "\<close>.
\<close>

theorem remove_node_tail_to_last_child:
  "remove_node ex_between (Some 0) note_path =
     Inr [Elem 0 (akn ''p'') [] None
            [Elem 1 (akn ''i'') [] (Some ''a'') [] None,
             Elem 3 (akn ''b'') [] (Some ''c'') [] (Some '' end bar '')] None,
          Elem 2 (akn ''authorialNote'') [] (Some ''X'') [] (Some '' bar '')]"
  by (simp add: ex_between_def eval_simps)

text \<open>The example of the specification: the parent's text becomes \<^verbatim>\<open>"foo  bar"\<close>.\<close>

lemma remove_node_foo_bar:
  "remove_node ex_foo_bar (Some 0) note_path =
     Inr [Elem 0 (akn ''p'') [] (Some ''foo  bar'') [] None,
          Elem 1 (akn ''authorialNote'') [] (Some ''X'') [] (Some '' bar'')]"
  by (simp add: ex_foo_bar_def eval_simps)

text \<open>
  Claim C3, as stated, fails for a selector with a positional predicate: with
  \<^verbatim>\<open>akn:authorialNote[1]\<close> the first run removes the first note, which makes the
  second note the first, and the second run removes that one.
\<close>

theorem remove_node_positional_not_idempotent:
  "remove_node ex_two_notes (Some 0) [Child (akn ''authorialNote''), Pos 0] =
     Inr [Elem 0 (akn ''p'') [] None [Elem 2 (akn ''authorialNote'') [] None [] None] None,
          Elem 1 (akn ''authorialNote'') [] None [] None]
   \<and> remove_node
        [Elem 0 (akn ''p'') [] None [Elem 2 (akn ''authorialNote'') [] None [] None] None,
         Elem 1 (akn ''authorialNote'') [] None [] None]
        (Some 0) [Child (akn ''authorialNote''), Pos 0] =
     Inr [Elem 0 (akn ''p'') [] None [] None,
          Elem 1 (akn ''authorialNote'') [] None [] None,
          Elem 2 (akn ''authorialNote'') [] None [] None]"
  by (simp add: ex_two_notes_def eval_simps)

subsection \<open>Absent sections\<close>

text \<open>
  Claim C7.  In a loaded document with no preface element, \<^verbatim>\<open>get_preface\<close> returns
  \<^verbatim>\<open>None\<close>; with no citations element under a preamble, \<^verbatim>\<open>get_preamble_citations\<close>
  returns \<^verbatim>\<open>None\<close>; with no recitals element under a preamble,
  \<^verbatim>\<open>get_preamble_recitals\<close> returns \<^verbatim>\<open>None\<close>.  None of them returns an empty list, and
  the document is left as it was.
\<close>

theorem absent_section_returns_None:
  assumes "self_root s = Inr r"
  shows "((\<forall>d \<in> set (iterdescendants r). etag d \<noteq> akn ''preface'') \<longrightarrow> get_preface s = Inr None)
    \<and> ((\<forall>d \<in> set (iterdescendants r). etag d = akn ''preamble'' \<longrightarrow>
            (\<forall>c \<in> set (echildren d). etag c \<noteq> akn ''citations''))
          \<longrightarrow> get_preamble_citations s = Inr (None, s))
    \<and> ((\<forall>d \<in> set (iterdescendants r). etag d = akn ''preamble'' \<longrightarrow>
            (\<forall>c \<in> set (echildren d). etag c \<noteq> akn ''recitals''))
          \<longrightarrow> get_preamble_recitals s = Inr (None, s))"
proof (intro conjI impI)
  assume "\<forall>d \<in> set (iterdescendants r). etag d \<noteq> akn ''preface''"
  then have "find_elem (doc s) r [Self, Desc (akn ''preface'')] = None"
    by (auto simp: find_elem_None findall_desc filter_empty_conv)
  with assms show "get_preface s = Inr None" by (simp add: get_preface_def)
next
  assume "\<forall>d \<in> set (iterdescendants r). etag d = akn ''preamble'' \<longrightarrow>
            (\<forall>c \<in> set (echildren d). etag c \<noteq> akn ''citations'')"
  then have "find_elem (doc s) r [Self, Desc (akn ''preamble''), Child (akn ''citations'')] = None"
    by (rule absent_under_find)
  with assms show "get_preamble_citations s = Inr (None, s)"
    by (simp add: get_preamble_citations_def)
next
  assume "\<forall>d \<in> set (iterdescendants r). etag d = akn ''preamble'' \<longrightarrow>
            (\<forall>c \<in> set (echildren d). etag c \<noteq> akn ''recitals'')"
  then have "find_elem (doc s) r [Self, Desc (akn ''preamble''), Child (akn ''recitals'')] = None"
    by (rule absent_under_find)
  with assms show "get_preamble_recitals s = Inr (None, s)"
    by (simp add: get_preamble_recitals_def)
qed

theorem absent_section_returns_None_witness:
  "get_preface ex_empty = Inr None
   \<and> get_preamble_citations ex_empty = Inr (None, ex_empty)
   \<and> get_preamble_recitals ex_empty = Inr (None, ex_empty)
   \<and> get_preface ex_empty \<noteq> Inr (Some [])"
proof -
  have r: "self_root ex_empty = Inr empty_doc"
    by (simp add: ex_empty_def get_root_def init_def self_root_def deref_def empty_doc_def)
  have 1: "\<forall>d \<in> set (iterdescendants empty_doc). etag d \<noteq> akn ''preface''"
    by (simp add: iterdescendants_def empty_doc_def)
  have 2: "\<forall>d \<in> set (iterdescendants empty_doc). etag d = akn ''preamble'' \<longrightarrow>
            (\<forall>c \<in> set (echildren d). etag c \<noteq> akn ''citations'')"
    by (simp add: iterdescendants_def empty_doc_def)
  have 3: "\<forall>d \<in> set (iterdescendants empty_doc). etag d = akn ''preamble'' \<longrightarrow>
            (\<forall>c \<in> set (echildren d). etag c \<noteq> akn ''recitals'')"
    by (simp add: iterdescendants_def empty_doc_def)
  from absent_section_returns_None [OF r] 1 2 3 show ?thesis by simp
qed

subsection \<open>A recitals section without an intro\<close>

text \<open>
  Claim C10.  When the document has a recitals section and that section has no intro
  child, \<^verbatim>\<open>get_preamble_recitals\<close> raises: \<^verbatim>\<open>find\<close> returns \<^verbatim>\<open>None\<close> and \<^verbatim>\<open>.get\<close> is
  looked up on it.  It does not return \<^verbatim>\<open>None\<close> and does not skip the intro entry.
\<close>

theorem recitals_without_intro_raises:
  assumes "self_root s = Inr r"
    and "find_elem (doc s) r [Self, Desc (akn ''preamble''), Child (akn ''recitals'')] = Some sec"
    and "\<forall>c \<in> set (echildren sec). etag c \<noteq> akn ''intro''"
  shows "get_preamble_recitals s = Inl AttributeError"
proof -
  from assms(3) have "find_elem (doc s) sec [Child (akn ''intro'')] = None"
    by (auto simp: find_elem_None findall_child filter_empty_conv)
  with assms(1,2) show ?thesis by (simp add: get_preamble_recitals_def)
qed

theorem recitals_without_intro_raises_witness:
  "get_preamble_recitals ex_no_intro = Inl AttributeError"
proof -
  have r: "self_root ex_no_intro = Inr no_intro_doc"
    by (simp add: ex_no_intro_def get_root_def init_def self_root_def deref_def no_intro_doc_def)
  have f: "find_elem (doc ex_no_intro) no_intro_doc
             [Self, Desc (akn ''preamble''), Child (akn ''recitals'')] = Some no_intro_section"
    by (simp add: find_elem_def findall_def iterdescendants_def no_intro_doc_def
          no_intro_section_def)
  have n: "\<forall>c \<in> set (echildren no_intro_section). etag c \<noteq> akn ''intro''"
    by (simp add: no_intro_section_def)
  from recitals_without_intro_raises [OF r f n] show ?thesis .
qed

subsection \<open>Chapters\<close>

text \<open>
  Claim C6.  Once a document is loaded, \<^verbatim>\<open>get_chapters\<close> does not raise, whatever
  \<^verbatim>\<open>self.body\<close> is, and stores one entry for every chapter element among the
  descendants of the root, in document order.  The entry of a chapter has its \<^verbatim>\<open>eId\<close>
  attribute, the direct text of its first number child or \<^verbatim>\<open>None\<close> when it has none, and
  the trimmed descendant text of its first heading child or \<^verbatim>\<open>None\<close> when it has none;
  the two are independent of each other.
\<close>

theorem get_chapters_every_chapter:
  assumes "self_root s = Inr r"
  shows "\<exists>s'. get_chapters s = Inr s'
           \<and> chapters s' = Some (map (chapter_of (doc s))
                                  (filter (\<lambda>e. etag e = akn ''chapter'') (iterdescendants r)))
           \<and> (\<forall>c. ch_eId (chapter_of (doc s) c) = get_attr c ''eId''
                 \<and> chapter_num (chapter_of (doc s) c) =
                     (case filter (\<lambda>n. etag n = akn ''num'') (echildren c) of
                        [] \<Rightarrow> None | n # _ \<Rightarrow> etext n)
                 \<and> chapter_heading (chapter_of (doc s) c) =
                     (case filter (\<lambda>h. etag h = akn ''heading'') (echildren c) of
                        [] \<Rightarrow> None | h # _ \<Rightarrow> Some (strip (concat (itertext h)))))"
  using assms
  by (simp add: get_chapters_def findall_desc chapter_of_def find_elem_child Let_def
           split: list.splits)

theorem get_chapters_every_chapter_witness:
  "\<exists>s'. get_chapters ex_chapters = Inr s'
     \<and> chapters s' =
         Some [\<lparr>ch_eId = Some ''chp_0'', chapter_num = Some ''Chapter 0'', chapter_heading = None\<rparr>,
               \<lparr>ch_eId = Some ''chp_1'', chapter_num = None,
                chapter_heading = Some ''General n provisions''\<rparr>,
               \<lparr>ch_eId = None, chapter_num = None, chapter_heading = None\<rparr>]"
proof -
  have r: "self_root ex_chapters = Inr chapters_doc"
    by (simp add: ex_chapters_def get_root_def init_def self_root_def deref_def chapters_doc_def)
  from get_chapters_every_chapter [OF r] obtain s' where
    "get_chapters ex_chapters = Inr s'"
    "chapters s' = Some (map (chapter_of (doc ex_chapters))
                          (filter (\<lambda>e. etag e = akn ''chapter'') (iterdescendants chapters_doc)))"
    by blast
  moreover have "map (chapter_of (doc ex_chapters))
        (filter (\<lambda>e. etag e = akn ''chapter'') (iterdescendants chapters_doc)) =
      [\<lparr>ch_eId = Some ''chp_0'', chapter_num = Some ''Chapter 0'', chapter_heading = None\<rparr>,
       \<lparr>ch_eId = Some ''chp_1'', chapter_num = None,
        chapter_heading = Some ''General n provisions''\<rparr>,
       \<lparr>ch_eId = None, chapter_num = None, chapter_heading = None\<rparr>]"
    by (simp add: chapters_doc_def iterdescendants_def chapter_of_def find_elem_child get_attr_def
          itertext_def strip_def is_space_def)
  ultimately show ?thesis by simp
qed

subsection \<open>Metadata\<close>

lemma fmx_eq [simp]: "fmx a = fmx b \<longleftrightarrow> a = b" "akn a \<noteq> fmx b" "fmx a \<noteq> akn b"
  by (simp_all add: akn_def fmx_def)

lemma dict_of_raises:
  "\<forall>kv \<in> set kvs. \<forall>e. snd kv = Inl e \<longrightarrow> e = AttributeError \<Longrightarrow>
   \<exists>kv \<in> set kvs. isl (snd kv) \<Longrightarrow> dict_of kvs = Inl AttributeError"
  by (induction kvs rule: dict_of.induct) (auto split: sum.splits)

lemma dict_of_returns:
  "\<forall>kv \<in> set kvs. \<not> isl (snd kv) \<Longrightarrow> dict_of kvs = Inr (map (\<lambda>(k, v). (k, projr v)) kvs)"
  by (induction kvs rule: dict_of.induct) auto

lemma find_get_cases:
  "find_get F e t a = (case find_elem F e [Child t] of None \<Rightarrow> Inl AttributeError | Some c \<Rightarrow> Inr (get_attr c a))"
  by (simp add: find_get_def)

lemma get_frbr_work_fields:
  "get_frbr_work F identification =
     (case find_elem F identification [Child (akn ''FRBRWork'')] of
        None \<Rightarrow> Inr None
      | Some w \<Rightarrow> bind_err (dict_of (map (\<lambda>(k, t, a). (k, find_get F w t a)) frbr_work_fields))
                    (\<lambda>d. Inr (Some d)))"
  by (simp add: get_frbr_work_def frbr_work_fields_def split: option.splits)

lemma find_text_cases:
  "find_text F e t = (case find_elem F e [Child t] of None \<Rightarrow> Inl AttributeError | Some c \<Rightarrow> Inr (etext c))"
  by (simp add: find_text_def)

lemmas doc_simps = get_root_def init_def self_root_def deref_def find_elem_def findall_def
  iterdescendants_def get_attr_def

lemma fields_dict_raises:
  assumes "\<exists>(k, t, a) \<in> set fs. find_elem F w [Child t] = None"
  shows "dict_of (map (\<lambda>(k, t, a). (k, find_get F w t a)) fs) = Inl AttributeError"
proof -
  let ?kvs = "map (\<lambda>(k, t, a). (k, find_get F w t a)) fs"
  have only: "\<forall>kv \<in> set ?kvs. \<forall>e. snd kv = Inl e \<longrightarrow> e = AttributeError"
    by (auto simp: find_get_def split: option.splits)
  from assms obtain k t a where "(k, t, a) \<in> set fs" "find_elem F w [Child t] = None"
    by auto
  then have "(k, find_get F w t a) \<in> set ?kvs" "isl (find_get F w t a)"
    by (force simp: find_get_def)+
  then have "\<exists>kv \<in> set ?kvs. isl (snd kv)"
    by force
  from dict_of_raises [OF only this] show ?thesis .
qed

lemma fields_dict_returns:
  assumes "\<forall>(k, t, a) \<in> set fs. find_elem F w [Child t] \<noteq> None"
  shows "dict_of (map (\<lambda>(k, t, a). (k, find_get F w t a)) fs) =
           Inr (map (\<lambda>(k, t, a). (k, case find_elem F w [Child t] of
                                       Some c \<Rightarrow> map_of (attrib c) a | None \<Rightarrow> None)) fs)"
proof -
  let ?kvs = "map (\<lambda>(k, t, a). (k, find_get F w t a)) fs"
  from assms have "\<forall>kv \<in> set ?kvs. \<not> isl (snd kv)"
    by (auto simp: find_get_def split: option.splits)
  from dict_of_returns [OF this] assms show ?thesis
    by (auto simp: find_get_def get_attr_def split: option.splits)
qed

lemma get_frbr_expression_fields:
  "get_frbr_expression F identification =
     (case find_elem F identification [Child (akn ''FRBRExpression'')] of
        None \<Rightarrow> Inr None
      | Some w \<Rightarrow> bind_err (dict_of (map (\<lambda>(k, t, a). (k, find_get F w t a)) frbr_expression_fields))
                    (\<lambda>d. Inr (Some d)))"
  by (simp add: get_frbr_expression_def frbr_expression_fields_def split: option.splits)

lemma get_frbr_manifestation_fields:
  "get_frbr_manifestation F identification =
     (case find_elem F identification [Child (akn ''FRBRManifestation'')] of
        None \<Rightarrow> Inr None
      | Some w \<Rightarrow> bind_err (dict_of (map (\<lambda>(k, t, a). (k, find_get F w t a)) frbr_manifestation_fields))
                    (\<lambda>d. Inr (Some d)))"
  by (simp add: get_frbr_manifestation_def frbr_manifestation_fields_def split: option.splits)

lemma dict_of_fields_error:
  "dict_of (map (\<lambda>(k, t, a). (k, find_get F w t a)) fs) = Inl e \<Longrightarrow> e = AttributeError"
  using fields_dict_raises [of fs F w] fields_dict_returns [of fs F w] by fastforce

text \<open>
  Claim C4, as amended.  When its parent element is present, each of \<^verbatim>\<open>_get_frbr_work\<close>,
  \<^verbatim>\<open>_get_frbr_expression\<close> and \<^verbatim>\<open>_get_frbr_manifestation\<close> raises \<open>AttributeError\<close> if
  one of the child elements it reads is missing; if all are there it returns the
  dictionary, in which the value of a key is the attribute of the child, and \<^verbatim>\<open>None\<close>
  when the child does not carry the attribute.  \<^verbatim>\<open>get_meta_identification\<close> passes
  the exception on to its caller, and returns the three results otherwise.
  \<^verbatim>\<open>get_meta_references\<close> reads attributes only: it returns the dictionary, with
  \<^verbatim>\<open>None\<close> for an attribute that is missing.  When the proprietary element and its
  \<^verbatim>\<open>DOCUMENT.REF\<close> are present, \<^verbatim>\<open>get_meta_proprietary\<close> raises if one of the four child
  elements it reads is missing; if all are there it returns the dictionary, in which a
  missing \<^verbatim>\<open>FILE\<close> attribute or a missing text is \<^verbatim>\<open>None\<close>.
\<close>

theorem metadata_child_or_attribute_missing:
  "(find_elem F identification [Child (akn ''FRBRWork'')] = Some w \<longrightarrow>
      ((\<exists>(k, t, a) \<in> set frbr_work_fields. find_elem F w [Child t] = None)
          \<longrightarrow> get_frbr_work F identification = Inl AttributeError)
      \<and> ((\<forall>(k, t, a) \<in> set frbr_work_fields. find_elem F w [Child t] \<noteq> None)
          \<longrightarrow> get_frbr_work F identification =
                Inr (Some (map (\<lambda>(k, t, a).
                             (k, case find_elem F w [Child t] of
                                   Some c \<Rightarrow> map_of (attrib c) a | None \<Rightarrow> None))
                           frbr_work_fields))))
   \<and> (find_elem F identification [Child (akn ''FRBRExpression'')] = Some x \<longrightarrow>
      ((\<exists>(k, t, a) \<in> set frbr_expression_fields. find_elem F x [Child t] = None)
          \<longrightarrow> get_frbr_expression F identification = Inl AttributeError)
      \<and> ((\<forall>(k, t, a) \<in> set frbr_expression_fields. find_elem F x [Child t] \<noteq> None)
          \<longrightarrow> get_frbr_expression F identification =
                Inr (Some (map (\<lambda>(k, t, a).
                             (k, case find_elem F x [Child t] of
                                   Some c \<Rightarrow> map_of (attrib c) a | None \<Rightarrow> None))
                           frbr_expression_fields))))
   \<and> (find_elem F identification [Child (akn ''FRBRManifestation'')] = Some m \<longrightarrow>
      ((\<exists>(k, t, a) \<in> set frbr_manifestation_fields. find_elem F m [Child t] = None)
          \<longrightarrow> get_frbr_manifestation F identification = Inl AttributeError)
      \<and> ((\<forall>(k, t, a) \<in> set frbr_manifestation_fields. find_elem F m [Child t] \<noteq> None)
          \<longrightarrow> get_frbr_manifestation F identification =
                Inr (Some (map (\<lambda>(k, t, a).
                             (k, case find_elem F m [Child t] of
                                   Some c \<Rightarrow> map_of (attrib c) a | None \<Rightarrow> None))
                           frbr_manifestation_fields))))
   \<and> (self_root s = Inr r
        \<and> find_elem (doc s) r [Self, Desc (akn ''meta''), Child (akn ''identification'')] = Some ident \<longrightarrow>
      ((get_frbr_work (doc s) ident = Inl AttributeError
          \<or> get_frbr_expression (doc s) ident = Inl AttributeError
          \<or> get_frbr_manifestation (doc s) ident = Inl AttributeError)
        \<longrightarrow> get_meta_identification s = Inl AttributeError)
      \<and> (\<forall>wd xd md. get_frbr_work (doc s) ident = Inr wd
            \<and> get_frbr_expression (doc s) ident = Inr xd
            \<and> get_frbr_manifestation (doc s) ident = Inr md
          \<longrightarrow> get_meta_identification s =
                Inr (Some \<lparr>work = wd, expression = xd, manifestation = md\<rparr>)))
   \<and> (self_root s = Inr r
        \<and> find_elem (doc s) r [Self, Desc (akn ''meta''), Child (akn ''references''),
                               Child (akn ''TLCOrganization'')] = Some org \<longrightarrow>
      get_meta_references s =
        Inr (Some [(''eId'', map_of (attrib org) ''eId''), (''href'', map_of (attrib org) ''href''),
                   (''showAs'', map_of (attrib org) ''showAs'')]))
   \<and> (self_root s = Inr r
        \<and> find_elem (doc s) r [Self, Desc (akn ''meta''), Child (akn ''proprietary'')] = Some pr
        \<and> find_elem (doc s) pr [Child (fmx ''DOCUMENT.REF'')] = Some dr \<longrightarrow>
      ((find_elem (doc s) dr [Child (fmx ''COLL'')] = None
          \<or> find_elem (doc s) dr [Child (fmx ''YEAR'')] = None
          \<or> find_elem (doc s) pr [Child (fmx ''LG.DOC'')] = None
          \<or> find_elem (doc s) pr [Child (fmx ''NO.SEQ'')] = None)
        \<longrightarrow> get_meta_proprietary s = Inl AttributeError)
      \<and> (\<forall>c y l n. find_elem (doc s) dr [Child (fmx ''COLL'')] = Some c
            \<and> find_elem (doc s) dr [Child (fmx ''YEAR'')] = Some y
            \<and> find_elem (doc s) pr [Child (fmx ''LG.DOC'')] = Some l
            \<and> find_elem (doc s) pr [Child (fmx ''NO.SEQ'')] = Some n
          \<longrightarrow> get_meta_proprietary s =
                Inr (Some [(''file'', map_of (attrib dr) ''FILE''), (''coll'', etext c),
                           (''year'', etext y), (''lg_doc'', etext l), (''no_seq'', etext n)])))"
proof -
  have W: "find_elem F identification [Child (akn ''FRBRWork'')] = Some w \<longrightarrow>
      ((\<exists>(k, t, a) \<in> set frbr_work_fields. find_elem F w [Child t] = None)
          \<longrightarrow> get_frbr_work F identification = Inl AttributeError)
      \<and> ((\<forall>(k, t, a) \<in> set frbr_work_fields. find_elem F w [Child t] \<noteq> None)
          \<longrightarrow> get_frbr_work F identification =
                Inr (Some (map (\<lambda>(k, t, a).
                             (k, case find_elem F w [Child t] of
                                   Some c \<Rightarrow> map_of (attrib c) a | None \<Rightarrow> None))
                           frbr_work_fields)))"
    using fields_dict_raises [of frbr_work_fields F w] fields_dict_returns [of frbr_work_fields F w]
    by (simp add: get_frbr_work_fields)
  have X: "find_elem F identification [Child (akn ''FRBRExpression'')] = Some x \<longrightarrow>
      ((\<exists>(k, t, a) \<in> set frbr_expression_fields. find_elem F x [Child t] = None)
          \<longrightarrow> get_frbr_expression F identification = Inl AttributeError)
      \<and> ((\<forall>(k, t, a) \<in> set frbr_expression_fields. find_elem F x [Child t] \<noteq> None)
          \<longrightarrow> get_frbr_expression F identification =
                Inr (Some (map (\<lambda>(k, t, a).
                             (k, case find_elem F x [Child t] of
                                   Some c \<Rightarrow> map_of (attrib c) a | None \<Rightarrow> None))
                           frbr_expression_fields)))"
    using fields_dict_raises [of frbr_expression_fields F x]
      fields_dict_returns [of frbr_expression_fields F x]
    by (simp add: get_frbr_expression_fields)
  have M: "find_elem F identification [Child (akn ''FRBRManifestation'')] = Some m \<longrightarrow>
      ((\<exists>(k, t, a) \<in> set frbr_manifestation_fields. find_elem F m [Child t] = None)
          \<longrightarrow> get_frbr_manifestation F identification = Inl AttributeError)
      \<and> ((\<forall>(k, t, a) \<in> set frbr_manifestation_fields. find_elem F m [Child t] \<noteq> None)
          \<longrightarrow> get_frbr_manifestation F identification =
                Inr (Some (map (\<lambda>(k, t, a).
                             (k, case find_elem F m [Child t] of
                                   Some c \<Rightarrow> map_of (attrib c) a | None \<Rightarrow> None))
                           frbr_manifestation_fields)))"
    using fields_dict_raises [of frbr_manifestation_fields F m]
      fields_dict_returns [of frbr_manifestation_fields F m]
    by (simp add: get_frbr_manifestation_fields)
  have we: "e = AttributeError" if "get_frbr_work (doc s) ident = Inl e" for e
    using that dict_of_fields_error [of "doc s" _ frbr_work_fields]
    by (auto simp: get_frbr_work_fields bind_err_def split: option.splits sum.splits)
  have xe: "e = AttributeError" if "get_frbr_expression (doc s) ident = Inl e" for e
    using that dict_of_fields_error [of "doc s" _ frbr_expression_fields]
    by (auto simp: get_frbr_expression_fields bind_err_def split: option.splits sum.splits)
  have I: "self_root s = Inr r
        \<and> find_elem (doc s) r [Self, Desc (akn ''meta''), Child (akn ''identification'')] = Some ident \<longrightarrow>
      ((get_frbr_work (doc s) ident = Inl AttributeError
          \<or> get_frbr_expression (doc s) ident = Inl AttributeError
          \<or> get_frbr_manifestation (doc s) ident = Inl AttributeError)
        \<longrightarrow> get_meta_identification s = Inl AttributeError)
      \<and> (\<forall>wd xd md. get_frbr_work (doc s) ident = Inr wd
            \<and> get_frbr_expression (doc s) ident = Inr xd
            \<and> get_frbr_manifestation (doc s) ident = Inr md
          \<longrightarrow> get_meta_identification s =
                Inr (Some \<lparr>work = wd, expression = xd, manifestation = md\<rparr>))"
  proof (intro impI conjI allI)
    assume h: "self_root s = Inr r
        \<and> find_elem (doc s) r [Self, Desc (akn ''meta''), Child (akn ''identification'')] = Some ident"
      and "get_frbr_work (doc s) ident = Inl AttributeError
          \<or> get_frbr_expression (doc s) ident = Inl AttributeError
          \<or> get_frbr_manifestation (doc s) ident = Inl AttributeError"
    then show "get_meta_identification s = Inl AttributeError"
      using we xe
      by (cases "get_frbr_work (doc s) ident"; cases "get_frbr_expression (doc s) ident")
         (auto simp: get_meta_identification_def)
  next
    fix wd xd md
    assume "self_root s = Inr r
        \<and> find_elem (doc s) r [Self, Desc (akn ''meta''), Child (akn ''identification'')] = Some ident"
      and "get_frbr_work (doc s) ident = Inr wd
            \<and> get_frbr_expression (doc s) ident = Inr xd
            \<and> get_frbr_manifestation (doc s) ident = Inr md"
    then show "get_meta_identification s = Inr (Some \<lparr>work = wd, expression = xd, manifestation = md\<rparr>)"
      by (simp add: get_meta_identification_def)
  qed
  have R: "self_root s = Inr r
        \<and> find_elem (doc s) r [Self, Desc (akn ''meta''), Child (akn ''references''),
                               Child (akn ''TLCOrganization'')] = Some org \<longrightarrow>
      get_meta_references s =
        Inr (Some [(''eId'', map_of (attrib org) ''eId''), (''href'', map_of (attrib org) ''href''),
                   (''showAs'', map_of (attrib org) ''showAs'')])"
    by (simp add: get_meta_references_def get_attr_def)
  have P: "self_root s = Inr r
        \<and> find_elem (doc s) r [Self, Desc (akn ''meta''), Child (akn ''proprietary'')] = Some pr
        \<and> find_elem (doc s) pr [Child (fmx ''DOCUMENT.REF'')] = Some dr \<longrightarrow>
      ((find_elem (doc s) dr [Child (fmx ''COLL'')] = None
          \<or> find_elem (doc s) dr [Child (fmx ''YEAR'')] = None
          \<or> find_elem (doc s) pr [Child (fmx ''LG.DOC'')] = None
          \<or> find_elem (doc s) pr [Child (fmx ''NO.SEQ'')] = None)
        \<longrightarrow> get_meta_proprietary s = Inl AttributeError)
      \<and> (\<forall>c y l n. find_elem (doc s) dr [Child (fmx ''COLL'')] = Some c
            \<and> find_elem (doc s) dr [Child (fmx ''YEAR'')] = Some y
            \<and> find_elem (doc s) pr [Child (fmx ''LG.DOC'')] = Some l
            \<and> find_elem (doc s) pr [Child (fmx ''NO.SEQ'')] = Some n
          \<longrightarrow> get_meta_proprietary s =
                Inr (Some [(''file'', map_of (attrib dr) ''FILE''), (''coll'', etext c),
                           (''year'', etext y), (''lg_doc'', etext l), (''no_seq'', etext n)]))"
    by (auto simp: get_meta_proprietary_def find_text_cases get_attr_def split: option.splits)
  from W X M I R P show ?thesis
    by (intro conjI)
qed

theorem metadata_child_or_attribute_missing_witness:
  "get_frbr_work ex_meta_no_uri (Elem 2 (akn ''identification'') [] None [work_elem_no_uri] None)
     = Inl AttributeError
   \<and> get_frbr_work [ident_elem] ident_elem =
       Inr (Some [(''FRBRthis'', None),
                  (''FRBRuri'', Some ''/akn/eu/act/2016/679''),
                  (''FRBRalias'', Some ''32016R0679''),
                  (''FRBRdate'', Some ''2016-04-27''),
                  (''FRBRauthor'', Some ''#ep''),
                  (''FRBRcountry'', Some ''eu''),
                  (''FRBRnumber'', Some ''679'')])
   \<and> get_meta_proprietary ex_meta =
       Inr (Some [(''file'', None), (''coll'', Some ''L''), (''year'', None),
                  (''lg_doc'', Some ''EN''), (''no_seq'', Some ''0001'')])
   \<and> get_meta_proprietary ex_no_year = Inl AttributeError
   \<and> get_frbr_expression [full_ident] full_ident = Inl AttributeError
   \<and> get_frbr_manifestation [full_ident] full_ident =
       Inr (Some [(''FRBRthis'', Some ''/akn/eu/act/2016/679/eng@/!main.xml''),
                  (''FRBRuri'', Some ''/akn/eu/act/2016/679/eng@.xml''),
                  (''FRBRdate'', Some ''2016-05-04''),
                  (''FRBRauthor'', None)])
   \<and> get_meta_identification ex_full_meta = Inl AttributeError
   \<and> get_meta_identification ex_meta =
       Inr (Some \<lparr>work = Some [(''FRBRthis'', None),
                                 (''FRBRuri'', Some ''/akn/eu/act/2016/679''),
                                 (''FRBRalias'', Some ''32016R0679''),
                                 (''FRBRdate'', Some ''2016-04-27''),
                                 (''FRBRauthor'', Some ''#ep''),
                                 (''FRBRcountry'', Some ''eu''),
                                 (''FRBRnumber'', Some ''679'')],
                  expression = None, manifestation = None\<rparr>)
   \<and> get_meta_references ex_full_meta =
       Inr (Some [(''eId'', Some ''ep''), (''href'', None), (''showAs'', None)])"
proof (intro conjI)
  let ?ident = "Elem 2 (akn ''identification'') [] None [work_elem_no_uri] None"
  have w: "find_elem ex_meta_no_uri ?ident [Child (akn ''FRBRWork'')] = Some work_elem_no_uri"
    by (simp add: find_elem_child work_elem_no_uri_def)
  have m: "\<exists>(k, t, a) \<in> set frbr_work_fields. find_elem ex_meta_no_uri work_elem_no_uri [Child t] = None"
    by (simp add: frbr_work_fields_def find_elem_child work_elem_no_uri_def)
  from metadata_child_or_attribute_missing [where F = ex_meta_no_uri and identification = "?ident" and w = work_elem_no_uri, THEN conjunct1] w m
  show "get_frbr_work ex_meta_no_uri ?ident = Inl AttributeError"
    by blast
next
  have w: "find_elem [ident_elem] ident_elem [Child (akn ''FRBRWork'')] = Some work_elem"
    by (simp add: find_elem_child ident_elem_def work_elem_def)
  have a: "\<forall>(k, t, a) \<in> set frbr_work_fields. find_elem [ident_elem] work_elem [Child t] \<noteq> None"
    by (simp add: frbr_work_fields_def find_elem_child work_elem_def)
  from metadata_child_or_attribute_missing [where F = "[ident_elem]" and identification = ident_elem and w = work_elem, THEN conjunct1] w a
  have "get_frbr_work [ident_elem] ident_elem =
          Inr (Some (map (\<lambda>(k, t, a).
                       (k, case find_elem [ident_elem] work_elem [Child t] of
                             Some c \<Rightarrow> map_of (attrib c) a | None \<Rightarrow> None))
                     frbr_work_fields))"
    by blast
  then show "get_frbr_work [ident_elem] ident_elem =
       Inr (Some [(''FRBRthis'', None),
                  (''FRBRuri'', Some ''/akn/eu/act/2016/679''),
                  (''FRBRalias'', Some ''32016R0679''),
                  (''FRBRdate'', Some ''2016-04-27''),
                  (''FRBRauthor'', Some ''#ep''),
                  (''FRBRcountry'', Some ''eu''),
                  (''FRBRnumber'', Some ''679'')])"
    by (simp add: frbr_work_fields_def find_elem_child work_elem_def)
next
  let ?pr = "Elem 11 (akn ''proprietary'') [] None
             [Elem 12 (fmx ''DOCUMENT.REF'') [] None
                [Elem 13 (fmx ''COLL'') [] (Some ''L'') [] None,
                 Elem 14 (fmx ''YEAR'') [] None [] None] None,
              Elem 15 (fmx ''LG.DOC'') [] (Some ''EN'') [] None,
              Elem 16 (fmx ''NO.SEQ'') [] (Some ''0001'') [] None] None"
  let ?dr = "Elem 12 (fmx ''DOCUMENT.REF'') [] None
                [Elem 13 (fmx ''COLL'') [] (Some ''L'') [] None,
                 Elem 14 (fmx ''YEAR'') [] None [] None] None"
  have h: "self_root ex_meta = Inr meta_doc
        \<and> find_elem (doc ex_meta) meta_doc [Self, Desc (akn ''meta''), Child (akn ''proprietary'')] = Some ?pr
        \<and> find_elem (doc ex_meta) ?pr [Child (fmx ''DOCUMENT.REF'')] = Some ?dr"
    by (simp add: ex_meta_def meta_doc_def ident_elem_def work_elem_def doc_simps)
  have c: "find_elem (doc ex_meta) ?dr [Child (fmx ''COLL'')] = Some (Elem 13 (fmx ''COLL'') [] (Some ''L'') [] None)
         \<and> find_elem (doc ex_meta) ?dr [Child (fmx ''YEAR'')] = Some (Elem 14 (fmx ''YEAR'') [] None [] None)
         \<and> find_elem (doc ex_meta) ?pr [Child (fmx ''LG.DOC'')] = Some (Elem 15 (fmx ''LG.DOC'') [] (Some ''EN'') [] None)
         \<and> find_elem (doc ex_meta) ?pr [Child (fmx ''NO.SEQ'')] = Some (Elem 16 (fmx ''NO.SEQ'') [] (Some ''0001'') [] None)"
    by (simp add: find_elem_child)
  from metadata_child_or_attribute_missing [where s = ex_meta and r = meta_doc and pr = "?pr" and dr = "?dr", THEN conjunct2, THEN conjunct2, THEN conjunct2, THEN conjunct2, THEN conjunct2] h c
  have "get_meta_proprietary ex_meta =
          Inr (Some [(''file'', map_of (attrib ?dr) ''FILE''),
                     (''coll'', etext (Elem 13 (fmx ''COLL'') [] (Some ''L'') [] None)),
                     (''year'', etext (Elem 14 (fmx ''YEAR'') [] None [] None)),
                     (''lg_doc'', etext (Elem 15 (fmx ''LG.DOC'') [] (Some ''EN'') [] None)),
                     (''no_seq'', etext (Elem 16 (fmx ''NO.SEQ'') [] (Some ''0001'') [] None))])"
    by blast
  then show "get_meta_proprietary ex_meta =
       Inr (Some [(''file'', None), (''coll'', Some ''L''), (''year'', None),
                  (''lg_doc'', Some ''EN''), (''no_seq'', Some ''0001'')])"
    by simp
next
  let ?r = "Elem 0 (akn ''akomaNtoso'') [] None [Elem 1 (akn ''meta'') [] None [proprietary_no_year] None] None"
  let ?dr = "Elem 12 (fmx ''DOCUMENT.REF'') [(''FILE'', ''L_2016119EN.xml'')] None
          [Elem 13 (fmx ''COLL'') [] (Some ''L'') [] None] None"
  have h: "self_root ex_no_year = Inr ?r
        \<and> find_elem (doc ex_no_year) ?r [Self, Desc (akn ''meta''), Child (akn ''proprietary'')] = Some proprietary_no_year
        \<and> find_elem (doc ex_no_year) proprietary_no_year [Child (fmx ''DOCUMENT.REF'')] = Some ?dr"
    by (simp add: ex_no_year_def proprietary_no_year_def doc_simps)
  have y: "find_elem (doc ex_no_year) ?dr [Child (fmx ''YEAR'')] = None"
    by (simp add: find_elem_child)
  from metadata_child_or_attribute_missing [where s = ex_no_year and r = "?r" and pr = proprietary_no_year and dr = "?dr", THEN conjunct2, THEN conjunct2, THEN conjunct2, THEN conjunct2, THEN conjunct2] h y
  show "get_meta_proprietary ex_no_year = Inl AttributeError"
    by blast
next
  have x: "find_elem [full_ident] full_ident [Child (akn ''FRBRExpression'')] =
             Some expression_no_language"
    by (simp add: find_elem_child full_ident_def work_elem_def expression_no_language_def)
  have m: "\<exists>(k, t, a) \<in> set frbr_expression_fields.
             find_elem [full_ident] expression_no_language [Child t] = None"
    by (simp add: frbr_expression_fields_def find_elem_child expression_no_language_def)
  from metadata_child_or_attribute_missing
         [where F = "[full_ident]" and identification = full_ident and x = expression_no_language, THEN conjunct2, THEN conjunct1]
       x m
  show "get_frbr_expression [full_ident] full_ident = Inl AttributeError"
    by blast
next
  have f: "find_elem [full_ident] full_ident [Child (akn ''FRBRManifestation'')] =
             Some manifestation_no_href"
    by (simp add: find_elem_child full_ident_def work_elem_def expression_no_language_def
          manifestation_no_href_def)
  have a: "\<forall>(k, t, a) \<in> set frbr_manifestation_fields.
             find_elem [full_ident] manifestation_no_href [Child t] \<noteq> None"
    by (simp add: frbr_manifestation_fields_def find_elem_child manifestation_no_href_def)
  from metadata_child_or_attribute_missing
         [where F = "[full_ident]" and identification = full_ident and m = manifestation_no_href, THEN conjunct2, THEN conjunct2, THEN conjunct1]
       f a
  have "get_frbr_manifestation [full_ident] full_ident =
          Inr (Some (map (\<lambda>(k, t, a).
                       (k, case find_elem [full_ident] manifestation_no_href [Child t] of
                             Some c \<Rightarrow> map_of (attrib c) a | None \<Rightarrow> None))
                     frbr_manifestation_fields))"
    by blast
  then show "get_frbr_manifestation [full_ident] full_ident =
       Inr (Some [(''FRBRthis'', Some ''/akn/eu/act/2016/679/eng@/!main.xml''),
                  (''FRBRuri'', Some ''/akn/eu/act/2016/679/eng@.xml''),
                  (''FRBRdate'', Some ''2016-05-04''),
                  (''FRBRauthor'', None)])"
    by (simp add: frbr_manifestation_fields_def find_elem_child manifestation_no_href_def)
next
  have h: "self_root ex_full_meta = Inr full_meta_doc
        \<and> find_elem (doc ex_full_meta) full_meta_doc
            [Self, Desc (akn ''meta''), Child (akn ''identification'')] = Some full_ident"
    by (simp add: ex_full_meta_def full_meta_doc_def full_ident_def organization_def doc_simps)
  have e: "get_frbr_expression (doc ex_full_meta) full_ident = Inl AttributeError"
    by (simp add: get_frbr_expression_def find_get_def find_elem_child full_ident_def
          work_elem_def expression_no_language_def)
  from metadata_child_or_attribute_missing
         [where s = ex_full_meta and r = full_meta_doc and ident = full_ident, THEN conjunct2, THEN conjunct2, THEN conjunct2, THEN conjunct1] h e
  show "get_meta_identification ex_full_meta = Inl AttributeError"
    by blast
next
  let ?wd = "Some [(''FRBRthis'', None),
                   (''FRBRuri'', Some ''/akn/eu/act/2016/679''),
                   (''FRBRalias'', Some ''32016R0679''),
                   (''FRBRdate'', Some ''2016-04-27''),
                   (''FRBRauthor'', Some ''#ep''),
                   (''FRBRcountry'', Some ''eu''),
                   (''FRBRnumber'', Some ''679'')]"
  have h: "self_root ex_meta = Inr meta_doc
        \<and> find_elem (doc ex_meta) meta_doc
            [Self, Desc (akn ''meta''), Child (akn ''identification'')] = Some ident_elem"
    by (simp add: ex_meta_def meta_doc_def ident_elem_def work_elem_def doc_simps)
  have g: "get_frbr_work (doc ex_meta) ident_elem = Inr ?wd
         \<and> get_frbr_expression (doc ex_meta) ident_elem = Inr None
         \<and> get_frbr_manifestation (doc ex_meta) ident_elem = Inr None"
    by (simp add: get_frbr_work_def get_frbr_expression_def get_frbr_manifestation_def
          find_get_def find_elem_child ident_elem_def work_elem_def get_attr_def)
  from metadata_child_or_attribute_missing
         [where s = ex_meta and r = meta_doc and ident = ident_elem, THEN conjunct2, THEN conjunct2, THEN conjunct2, THEN conjunct1] h g
  show "get_meta_identification ex_meta =
          Inr (Some \<lparr>work = ?wd, expression = None, manifestation = None\<rparr>)"
    by blast
next
  have h: "self_root ex_full_meta = Inr full_meta_doc
        \<and> find_elem (doc ex_full_meta) full_meta_doc
            [Self, Desc (akn ''meta''), Child (akn ''references''),
             Child (akn ''TLCOrganization'')] = Some organization"
    by (simp add: ex_full_meta_def full_meta_doc_def full_ident_def organization_def doc_simps)
  from metadata_child_or_attribute_missing
         [where s = ex_full_meta and r = full_meta_doc and org = organization, THEN conjunct2, THEN conjunct2, THEN conjunct2, THEN conjunct2, THEN conjunct1] h
  have "get_meta_references ex_full_meta =
          Inr (Some [(''eId'', map_of (attrib organization) ''eId''),
                     (''href'', map_of (attrib organization) ''href''),
                     (''showAs'', map_of (attrib organization) ''showAs'')])"
    by blast
  then show "get_meta_references ex_full_meta =
       Inr (Some [(''eId'', Some ''ep''), (''href'', None), (''showAs'', None)])"
    by (simp add: organization_def)
qed

text \<open>
  Claim C4, as stated, fails for a missing attribute: \<^verbatim>\<open>FRBRWork\<close> and its child
  \<^verbatim>\<open>FRBRthis\<close> are present, \<^verbatim>\<open>FRBRthis\<close> has no \<^verbatim>\<open>value\<close> attribute, and the extractor
  returns the dictionary with \<^verbatim>\<open>None\<close> under that key.
\<close>

theorem missing_attribute_is_not_an_error:
  "find_elem [ident_elem] ident_elem [Child (akn ''FRBRWork'')] = Some work_elem
   \<and> find_elem [ident_elem] work_elem [Child (akn ''FRBRthis'')]
       = Some (Elem 4 (akn ''FRBRthis'') [] None [] None)
   \<and> get_attr (Elem 4 (akn ''FRBRthis'') [] None [] None) ''value'' = None
   \<and> get_frbr_work [ident_elem] ident_elem =
       Inr (Some [(''FRBRthis'', None),
                  (''FRBRuri'', Some ''/akn/eu/act/2016/679''),
                  (''FRBRalias'', Some ''32016R0679''),
                  (''FRBRdate'', Some ''2016-04-27''),
                  (''FRBRauthor'', Some ''#ep''),
                  (''FRBRcountry'', Some ''eu''),
                  (''FRBRnumber'', Some ''679'')])"
  by (simp add: get_frbr_work_def find_get_def find_elem_child ident_elem_def work_elem_def get_attr_def)

subsection \<open>Articles\<close>

lemma article_title_cases:
  "article_title (article_of F a) =
     (case filter (\<lambda>c. etag c = akn ''heading'') (echildren a) of
        h # _ \<Rightarrow> etext h
      | [] \<Rightarrow> (case filter (\<lambda>c. etag c = akn ''num'') (echildren a) of
                 n1 # n2 # _ \<Rightarrow> etext n2
               | _ \<Rightarrow> None))"
  by (simp add: article_of_def article_title_element_def find_elem_child findall_child Let_def
        split: list.splits)

text \<open>
  Claim C8.  Every entry that \<^verbatim>\<open>get_articles\<close> returns is built from an article element
  beneath the body, after the notes were stripped.  Its title is the direct text of the
  first heading child when the article has a heading child; with no heading child and
  more than one number child it is the direct text of the second number child; otherwise
  it is \<^verbatim>\<open>None\<close>.
\<close>

theorem article_title_rule:
  assumes "get_articles s = Inr (arts, s')"
  shows "(\<exists>b body'. body s = Some (Some b) \<and> lookup b (doc s') = Some body'
            \<and> arts = map (article_of (doc s'))
                       (filter (\<lambda>e. etag e = akn ''article'') (iterdescendants body')))
       \<and> (\<forall>a. article_title (article_of (doc s') a) =
             (case filter (\<lambda>c. etag c = akn ''heading'') (echildren a) of
                h # _ \<Rightarrow> etext h
              | [] \<Rightarrow> (case filter (\<lambda>c. etag c = akn ''num'') (echildren a) of
                         n1 # n2 # _ \<Rightarrow> etext n2
                       | _ \<Rightarrow> None)))"
proof
  from assms obtain b where b: "body s = Some (Some b)"
    by (cases "body s"; cases "the (body s)")
       (auto simp: get_articles_def remove_node_def)
  with assms obtain F' where F': "remove_node (doc s) (Some b) note_path = Inr F'"
    by (cases "remove_node (doc s) (Some b) note_path") (auto simp: get_articles_def)
  with assms b obtain body' where "lookup b F' = Some body'"
    and "arts = map (article_of F') (findall F' body' [Self, Desc (akn ''article'')])"
    and "s' = s\<lparr>doc := F', articles := Some arts\<rparr>"
    by (cases "lookup b F'") (auto simp: get_articles_def deref_def Let_def)
  with b show "\<exists>b body'. body s = Some (Some b) \<and> lookup b (doc s') = Some body'
            \<and> arts = map (article_of (doc s'))
                       (filter (\<lambda>e. etag e = akn ''article'') (iterdescendants body'))"
    by (simp add: findall_desc)
next
  show "\<forall>a. article_title (article_of (doc s') a) =
             (case filter (\<lambda>c. etag c = akn ''heading'') (echildren a) of
                h # _ \<Rightarrow> etext h
              | [] \<Rightarrow> (case filter (\<lambda>c. etag c = akn ''num'') (echildren a) of
                         n1 # n2 # _ \<Rightarrow> etext n2
                       | _ \<Rightarrow> None))"
    by (simp add: article_title_cases)
qed

text \<open>The three articles of the example: a heading wins, then the second number, then nothing.\<close>

lemma get_articles_ex:
  "get_articles ex_articles =
     Inr ([\<lparr>ar_eId = Some ''art_1'', article_num = Some ''Article 1'',
            article_title = Some ''Subject matter'', article_text = []\<rparr>,
           \<lparr>ar_eId = Some ''art_2'', article_num = Some ''Article 2'',
            article_title = Some ''Scope'', article_text = []\<rparr>,
           \<lparr>ar_eId = Some ''art_3'', article_num = Some ''Article 3'',
            article_title = None, article_text = []\<rparr>],
          ex_articles\<lparr>articles := Some
          [\<lparr>ar_eId = Some ''art_1'', article_num = Some ''Article 1'',
            article_title = Some ''Subject matter'', article_text = []\<rparr>,
           \<lparr>ar_eId = Some ''art_2'', article_num = Some ''Article 2'',
            article_title = Some ''Scope'', article_text = []\<rparr>,
           \<lparr>ar_eId = Some ''art_3'', article_num = Some ''Article 3'',
            article_title = None, article_text = []\<rparr>]\<rparr>)"
  by (simp add: ex_articles_def articles_doc_def get_articles_def eval_simps doc_simps
        article_of_def article_title_element_def get_text_by_eId_def Let_def)


theorem article_title_rule_witness:
  "map article_title (fst (projr (get_articles ex_articles))) =
     [Some ''Subject matter'', Some ''Scope'', None]"
proof -
  let ?arts = "fst (projr (get_articles ex_articles))"
  let ?s' = "snd (projr (get_articles ex_articles))"
  have g: "get_articles ex_articles = Inr (?arts, ?s')"
    by (simp add: get_articles_ex)
  have d: "doc ?s' = [articles_doc]"
    by (simp add: get_articles_ex) (simp add: ex_articles_def get_root_def init_def)
  from article_title_rule [OF g] obtain b body' where
    b: "body ex_articles = Some (Some b)" and l: "lookup b (doc ?s') = Some body'"
    and arts: "?arts = map (article_of (doc ?s'))
                         (filter (\<lambda>e. etag e = akn ''article'') (iterdescendants body'))"
    and title: "\<And>a. article_title (article_of (doc ?s') a) =
             (case filter (\<lambda>c. etag c = akn ''heading'') (echildren a) of
                h # _ \<Rightarrow> etext h
              | [] \<Rightarrow> (case filter (\<lambda>c. etag c = akn ''num'') (echildren a) of
                         n1 # n2 # _ \<Rightarrow> etext n2
                       | _ \<Rightarrow> None))"
    by blast
  from b have "b = 1" by (simp add: ex_articles_def)
  with l d have body': "body' = hd (echildren articles_doc)"
    by (simp add: articles_doc_def)
  have "map article_title ?arts =
          map (\<lambda>a. article_title (article_of (doc ?s') a))
            (filter (\<lambda>e. etag e = akn ''article'') (iterdescendants body'))"
    by (subst arts) (simp add: comp_def)
  also have "\<dots> = [Some ''Subject matter'', Some ''Scope'', None]"
    unfolding title by (simp add: body' articles_doc_def iterdescendants_def)
  finally show ?thesis .
qed

subsection \<open>Removal keeps the forest well formed\<close>

lemma ids_simps [simp]:
  "ids [] = []"
  "ids (Elem j t a x cs l # es) = j # ids cs @ ids es"
  by (simp_all add: ids_def)

lemma iter_append [simp]: "iter (A @ B) = iter A @ iter B"
  by (induction A rule: iter.induct) auto

lemma ids_append [simp]: "ids (A @ B) = ids A @ ids B"
  by (simp add: ids_def)

lemma ids_single_eid: "eid e \<in> set (ids [e])"
  by (cases e) simp

lemma lookup_None_iff: "lookup i F = None \<longleftrightarrow> i \<notin> set (ids F)"
  by (induction i F rule: lookup.induct) (auto split: option.splits)

lemma lookup_in_iter: "lookup i F = Some e \<Longrightarrow> e \<in> set (iter F) \<and> eid e = i"
  by (induction i F rule: lookup.induct) (auto split: option.splits if_splits)

lemma ids_of_member: "e \<in> set (iter F) \<Longrightarrow> set (ids [e]) \<subseteq> set (ids F)"
proof (induction F rule: iter.induct)
  case 1
  then show ?case by simp
next
  case (2 i t a x cs l es)
  then show ?case by (auto simp: ids_def)
qed

lemma lookup_unique:
  "distinct (ids F) \<Longrightarrow> e \<in> set (iter F) \<Longrightarrow> lookup (eid e) F = Some e"
proof (induction F rule: iter.induct)
  case 1
  then show ?case by simp
next
  case (2 i t a x cs l es)
  from "2.prems"(2) consider "e = Elem i t a x cs l" | "e \<in> set (iter cs)" | "e \<in> set (iter es)"
    by auto
  then show ?case
  proof cases
    case 1
    then show ?thesis by simp
  next
    case 2
    then have "eid e \<in> set (ids cs)" by (auto simp: ids_def)
    with 2 "2.prems"(1) "2.IH"(1) show ?thesis by auto
  next
    case 3
    then have e: "eid e \<in> set (ids es)" by (auto simp: ids_def)
    with "2.prems"(1) have "eid e \<notin> set (ids cs)" "eid e \<noteq> i" by auto
    then have "lookup (eid e) cs = None" by (simp add: lookup_None_iff)
    with 3 "2.prems"(1) "2.IH"(2) \<open>eid e \<noteq> i\<close> show ?thesis by auto
  qed
qed

lemma lookup_append:
  "lookup i (A @ B) = (case lookup i A of Some e \<Rightarrow> Some e | None \<Rightarrow> lookup i B)"
  by (induction i A rule: lookup.induct) (auto split: option.splits)

lemma child_ids_append [simp]: "child_ids (A @ B) = child_ids A @ child_ids B"
  by (induction A rule: child_ids.induct) auto

lemma getparent_iff: "getparent i F \<noteq> None \<longleftrightarrow> i \<in> set (child_ids F)"
  by (induction i F rule: getparent.induct) (auto split: option.splits)

lemma roots_in_iter: "set cs \<subseteq> set (iter cs)"
  by (induction cs rule: iter.induct) auto

lemma root_ids: "c \<in> set cs \<Longrightarrow> eid c \<in> set (ids cs)"
  using roots_in_iter [of cs] by (auto simp: ids_def)

lemma child_ids_subset: "set (child_ids F) \<subseteq> set (ids F)"
proof (induction F rule: child_ids.induct)
  case 1
  then show ?case by simp
next
  case (2 j t a x cs l es)
  have "eid ` set cs \<subseteq> set (ids cs)"
    using root_ids by blast
  with 2 show ?case by auto
qed

lemma getparent_in_ids:
  "getparent i F = Some p \<Longrightarrow> i \<in> set (ids F) \<and> p \<in> set (ids F)"
proof (induction i F rule: getparent.induct)
  case (1 i)
  then show ?case by simp
next
  case (2 i j t a x cs l es)
  show ?case
  proof (cases "i \<in> eid ` set cs")
    case True
    with "2.prems" root_ids show ?thesis by auto
  next
    case False
    with 2 show ?thesis by (auto split: option.splits)
  qed
qed

lemma ids_filter_subset: "set (ids (filter P cs)) \<subseteq> set (ids cs)"
  by (induction cs rule: iter.induct) auto

lemma ids_unlink_subset: "set (ids (unlink p i F)) \<subseteq> set (ids F)"
proof (induction p i F rule: unlink.induct)
  case (1 p i)
  then show ?case by simp
next
  case (2 p i j t a x cs l es)
  then show ?case using ids_filter_subset [of "\<lambda>c. eid c \<noteq> i" cs] by auto
qed

lemma unlink_absent: "p \<notin> set (ids F) \<Longrightarrow> unlink p i F = F"
  by (induction p i F rule: unlink.induct) auto

lemma filter_removes_item:
  "distinct (ids cs) \<Longrightarrow> i \<in> eid ` set cs \<Longrightarrow> lookup i cs = Some item \<Longrightarrow>
   mset (ids (filter (\<lambda>c. eid c \<noteq> i) cs)) + mset (ids [item]) = mset (ids cs)"
proof (induction cs)
  case Nil
  then show ?case by simp
next
  case (Cons c cs)
  obtain j t a x ds l where c: "c = Elem j t a x ds l" by (cases c)
  show ?case
  proof (cases "j = i")
    case True
    with Cons.prems c have item: "item = c" by simp
    from Cons.prems(1) c True have "i \<notin> set (ids cs)" by auto
    then have "i \<notin> eid ` set cs" using root_ids by blast
    then have "filter (\<lambda>c. eid c \<noteq> i) cs = cs" by (auto simp: filter_id_conv)
    with c True item show ?thesis by simp
  next
    case False
    with Cons.prems(2) c have in_cs: "i \<in> eid ` set cs" by auto
    then have "i \<in> set (ids cs)" using root_ids by blast
    with Cons.prems(1) c have "i \<notin> set (ids ds)" by auto
    then have "lookup i ds = None" by (simp add: lookup_None_iff)
    with Cons.prems(3) c False have "lookup i cs = Some item" by simp
    moreover from Cons.prems(1) c have "distinct (ids cs)" by simp
    ultimately have "mset (ids (filter (\<lambda>c. eid c \<noteq> i) cs)) + mset (ids [item]) = mset (ids cs)"
      using Cons.IH in_cs by blast
    with c False show ?thesis by simp
  qed
qed

lemma unlink_mset:
  "distinct (ids F) \<Longrightarrow> getparent i F = Some p \<Longrightarrow> lookup i F = Some item \<Longrightarrow>
   mset (ids (unlink p i F)) + mset (ids [item]) = mset (ids F)"
proof (induction i F rule: getparent.induct)
  case (1 i)
  then show ?case by simp
next
  case (2 i j t a x cs l es)
  from "2.prems"(1) have d: "distinct (ids cs)" "distinct (ids es)" "j \<notin> set (ids cs)"
    "j \<notin> set (ids es)" "set (ids cs) \<inter> set (ids es) = {}"
    by auto
  show ?case
  proof (cases "i \<in> set (map eid cs)")
    case True
    with "2.prems"(2) have p: "p = j" by simp
    from True have ics: "i \<in> set (ids cs)" using root_ids by auto
    with d have "i \<noteq> j" by auto
    moreover from ics have "lookup i cs \<noteq> None" by (simp add: lookup_None_iff)
    ultimately have "lookup i cs = Some item" using "2.prems"(3) by (auto split: option.splits)
    with d True have "mset (ids (filter (\<lambda>c. eid c \<noteq> i) cs)) + mset (ids [item]) = mset (ids cs)"
      by (intro filter_removes_item) auto
    moreover from d have "unlink j i es = es" by (simp add: unlink_absent)
    ultimately show ?thesis using p by simp
  next
    case False
    show ?thesis
    proof (cases "getparent i cs")
      case None
      with False "2.prems"(2) have gp: "getparent i es = Some p" by simp
      then have "i \<in> set (ids es)" "p \<in> set (ids es)" using getparent_in_ids by blast+
      with d have "i \<notin> set (ids cs)" "p \<notin> set (ids cs)" "i \<noteq> j" "p \<noteq> j" by auto
      then have "lookup i cs = None" "unlink p i cs = cs"
        by (simp_all add: lookup_None_iff unlink_absent)
      with "2.prems"(3) \<open>i \<noteq> j\<close> have "lookup i es = Some item" by simp
      with "2.IH"(2) False None gp d have "mset (ids (unlink p i es)) + mset (ids [item]) = mset (ids es)"
        by simp
      with \<open>p \<noteq> j\<close> \<open>unlink p i cs = cs\<close> show ?thesis by simp
    next
      case (Some q)
      with False "2.prems"(2) have gp: "getparent i cs = Some p" by simp
      then have "i \<in> set (ids cs)" "p \<in> set (ids cs)" using getparent_in_ids by blast+
      with d have "i \<noteq> j" "p \<noteq> j" "p \<notin> set (ids es)" by auto
      from \<open>i \<in> set (ids cs)\<close> have "lookup i cs \<noteq> None" by (simp add: lookup_None_iff)
      with "2.prems"(3) \<open>i \<noteq> j\<close> have "lookup i cs = Some item" by (auto split: option.splits)
      with "2.IH"(1) False gp d have "mset (ids (unlink p i cs)) + mset (ids [item]) = mset (ids cs)"
        by simp
      moreover from \<open>p \<notin> set (ids es)\<close> have "unlink p i es = es" by (simp add: unlink_absent)
      ultimately show ?thesis using \<open>p \<noteq> j\<close> by simp
    qed
  qed
qed

lemma remove_child_ids:
  assumes "distinct (ids F)" "getparent i F = Some p" "lookup i F = Some item"
  shows "distinct (ids (remove_child p item F))" "set (ids (remove_child p item F)) = set (ids F)"
    "i \<notin> set (ids (unlink p i F))"
proof -
  from lookup_in_iter [OF assms(3)] have i: "eid item = i" by simp
  have m: "mset (ids (remove_child p item F)) = mset (ids F)"
    using unlink_mset [OF assms] by (simp add: remove_child_def i)
  with assms(1) show "distinct (ids (remove_child p item F))"
    by (metis mset_eq_imp_distinct_iff)
  from m show "set (ids (remove_child p item F)) = set (ids F)"
    by (rule mset_eq_setD)
  from \<open>distinct (ids (remove_child p item F))\<close> have "set (ids (unlink p i F)) \<inter> set (ids [item]) = {}"
    by (simp add: remove_child_def i)
  with ids_single_eid [of item] i show "i \<notin> set (ids (unlink p i F))" by auto
qed

text \<open>Parents after unlinking.\<close>

lemma child_ids_filter:
  "k \<in> set (child_ids cs) \<Longrightarrow>
   k \<in> set (child_ids (filter P cs)) \<or> (\<exists>c \<in> set cs. \<not> P c \<and> k \<in> set (child_ids [c]))"
  by (induction cs rule: child_ids.induct) auto

lemma child_ids_member: "c \<in> set (iter F) \<Longrightarrow> set (child_ids [c]) \<subseteq> set (child_ids F)"
  by (induction F rule: child_ids.induct) auto

lemma roots_unlink [simp]: "map eid (unlink p i F) = map eid F"
  by (induction p i F rule: unlink.induct) auto

lemma child_ids_unlink:
  "k \<in> set (child_ids F) \<Longrightarrow> k \<noteq> i \<Longrightarrow>
   k \<in> set (child_ids (unlink p i F)) \<or> (\<exists>c \<in> set (iter F). eid c = i \<and> k \<in> set (child_ids [c]))"
proof (induction p i F rule: unlink.induct)
  case (1 p i)
  then show ?case by simp
next
  case (2 p i j t a x cs l es)
  from "2.prems"(1) consider "k \<in> eid ` set cs" | "k \<in> set (child_ids cs)" | "k \<in> set (child_ids es)"
    by auto
  then show ?case
  proof cases
    case 1
    with "2.prems"(2) have "k \<in> eid ` set (filter (\<lambda>c. eid c \<noteq> i) cs)" by auto
    moreover have "set (map eid (unlink p i cs)) = eid ` set cs"
      by (simp only: roots_unlink set_map)
    ultimately show ?thesis using 1 by (cases "j = p") auto
  next
    case 2
    show ?thesis
    proof (cases "j = p")
      case True
      from child_ids_filter [OF 2, of "\<lambda>c. eid c \<noteq> i"]
      consider "k \<in> set (child_ids (filter (\<lambda>c. eid c \<noteq> i) cs))"
        | c where "c \<in> set cs" "eid c = i" "k \<in> set (child_ids [c])"
        by auto
      then show ?thesis
      proof cases
        case 1
        with True show ?thesis by simp
      next
        case 2
        then have "c \<in> set (iter cs)" using roots_in_iter by blast
        with 2 show ?thesis by auto
      qed
    next
      case False
      with "2.IH"(1) 2 "2.prems"(2) show ?thesis by auto
    qed
  next
    case 3
    with "2.IH"(2) "2.prems"(2) show ?thesis by auto
  qed
qed

lemma child_ids_remove_child:
  assumes "distinct (ids F)" "lookup i F = Some item" "k \<in> set (child_ids F)" "k \<noteq> i"
  shows "k \<in> set (child_ids (remove_child p item F))"
proof -
  from lookup_in_iter [OF assms(2)] have i: "eid item = i" by simp
  from child_ids_unlink [OF assms(3,4), of p]
  consider "k \<in> set (child_ids (unlink p i F))"
    | c where "c \<in> set (iter F)" "eid c = i" "k \<in> set (child_ids [c])"
    by auto
  then show ?thesis
  proof cases
    case 1
    then show ?thesis by (simp add: remove_child_def i)
  next
    case 2
    with lookup_unique [OF assms(1) 2(1)] assms(2) have "c = item" by simp
    with 2 show ?thesis by (simp add: remove_child_def)
  qed
qed

text \<open>Descendants after unlinking.\<close>

lemma under_append [simp]: "under r (A @ B) = under r A @ under r B"
  by (induction r A rule: under.induct) auto

lemma sub_ids_append [simp]: "sub_ids k (A @ B) = sub_ids k A @ sub_ids k B"
  by (induction k A rule: sub_ids.induct) auto

lemma under_ids: "fst ` set (under r F) \<subseteq> set (ids F)"
  by (induction r F rule: under.induct) (auto simp: ids_def)

lemma sub_ids_ids: "set (sub_ids k F) \<subseteq> set (ids F)"
  by (induction k F rule: sub_ids.induct) (auto simp: ids_def)

lemma under_absent: "r \<notin> set (ids F) \<Longrightarrow> under r F = []"
  by (induction r F rule: under.induct) auto

lemma sub_ids_absent: "k \<notin> set (ids F) \<Longrightarrow> sub_ids k F = []"
  by (induction k F rule: sub_ids.induct) auto

lemma labels_filter_subset:
  "set (map (\<lambda>e. (eid e, etag e)) (iter (filter P cs))) \<subseteq> set (map (\<lambda>e. (eid e, etag e)) (iter cs))"
  by (induction cs rule: iter.induct) auto

lemma labels_unlink_subset:
  "set (map (\<lambda>e. (eid e, etag e)) (iter (unlink p i F))) \<subseteq> set (map (\<lambda>e. (eid e, etag e)) (iter F))"
proof (induction p i F rule: unlink.induct)
  case (1 p i)
  then show ?case by simp
next
  case (2 p i j t a x cs l es)
  then show ?case using labels_filter_subset [of "\<lambda>c. eid c \<noteq> i" cs] by auto
qed

lemma under_filter_subset: "set (under r (filter P cs)) \<subseteq> set (under r cs)"
  by (induction r cs rule: under.induct) auto

lemma under_unlink_subset: "set (under r (unlink p i F)) \<subseteq> set (under r F)"
proof (induction p i F rule: unlink.induct)
  case (1 p i)
  then show ?case by simp
next
  case (2 p i j t a x cs l es)
  then show ?case
    using labels_filter_subset [of "\<lambda>c. eid c \<noteq> i" cs] labels_unlink_subset [of p i cs]
      under_filter_subset [of r "\<lambda>c. eid c \<noteq> i" cs]
    by auto
qed

lemma sub_ids_filter_subset: "set (sub_ids k (filter P cs)) \<subseteq> set (sub_ids k cs)"
  by (induction k cs rule: sub_ids.induct) auto

lemma sub_ids_unlink_subset: "set (sub_ids k (unlink p i F)) \<subseteq> set (sub_ids k F)"
proof (induction p i F rule: unlink.induct)
  case (1 p i)
  then show ?case by simp
next
  case (2 p i j t a x cs l es)
  then show ?case
    using ids_filter_subset [of "\<lambda>c. eid c \<noteq> i" cs] ids_unlink_subset [of p i cs]
      sub_ids_filter_subset [of k "\<lambda>c. eid c \<noteq> i" cs]
    by (auto simp: ids_def)
qed

lemma sub_ids_member: "c \<in> set (iter F) \<Longrightarrow> set (sub_ids k [c]) \<subseteq> set (sub_ids k F)"
proof (induction k F rule: sub_ids.induct)
  case (1 k)
  then show ?case by simp
next
  case (2 k j t a x cs l es)
  have "set (sub_ids k [c]) \<subseteq> set (ids cs)" if "c \<in> set (iter cs)"
    using sub_ids_ids [of k "[c]"] ids_of_member [OF that] by auto
  with 2 show ?case by (auto simp: ids_def)
qed

lemma ids_item_sub_ids: "lookup i F = Some item \<Longrightarrow> set (ids [item]) \<subseteq> set (sub_ids i F)"
  by (induction i F rule: lookup.induct) (auto split: option.splits if_splits simp: ids_def)

lemma under_lookup:
  "distinct (ids F) \<Longrightarrow> lookup r F = Some e \<Longrightarrow>
   under r F = map (\<lambda>e. (eid e, etag e)) (iter (echildren e))"
proof (induction r F rule: lookup.induct)
  case (1 i)
  then show ?case by simp
next
  case (2 i j t a x cs l es)
  show ?case
  proof (cases "i = j")
    case True
    with "2.prems" have "under i es = []" by (intro under_absent) auto
    with True "2.prems" show ?thesis by auto
  next
    case False
    show ?thesis
    proof (cases "lookup i cs")
      case None
      then have "under i cs = []" by (simp add: under_absent lookup_None_iff)
      with 2 False None show ?thesis by auto
    next
      case (Some e')
      then have "i \<in> set (ids cs)" using lookup_None_iff [of i cs] by auto
      with "2.prems"(1) have "i \<notin> set (ids es)" by auto
      then have "under i es = []" by (rule under_absent)
      with 2 False Some show ?thesis by auto
    qed
  qed
qed

lemma under_not_above:
  "distinct (ids F) \<Longrightarrow> k \<in> fst ` set (under r F) \<Longrightarrow> r \<notin> set (sub_ids k F)"
proof (induction r F rule: under.induct)
  case (1 r)
  then show ?case by simp
next
  case (2 r j t a x cs l es)
  from "2.prems"(1) have d: "distinct (ids cs)" "distinct (ids es)" "j \<notin> set (ids cs)"
    "j \<notin> set (ids es)" "set (ids cs) \<inter> set (ids es) = {}"
    by auto
  show ?case
  proof (cases "j = r")
    case True
    with d have "under r es = []" by (simp add: under_absent)
    with "2.prems"(2) True have k: "k \<in> set (ids cs)" by (auto simp: ids_def)
    with d have "k \<noteq> j" by auto
    moreover from d True sub_ids_ids [of k cs] sub_ids_ids [of k es]
    have "r \<notin> set (sub_ids k cs)" "r \<notin> set (sub_ids k es)" by auto
    ultimately show ?thesis by simp
  next
    case False
    from "2.prems"(2) False consider "k \<in> fst ` set (under r cs)" | "k \<in> fst ` set (under r es)"
      by auto
    then show ?thesis
    proof cases
      case 1
      then have k: "k \<in> set (ids cs)" using under_ids by blast
      with d have "k \<noteq> j" "k \<notin> set (ids es)" by auto
      then have "sub_ids k es = []" by (simp add: sub_ids_absent)
      with "2.IH"(1) False 1 d \<open>k \<noteq> j\<close> show ?thesis by simp
    next
      case 2
      then have k: "k \<in> set (ids es)" using under_ids by blast
      with d have "k \<noteq> j" "k \<notin> set (ids cs)" by auto
      then have "sub_ids k cs = []" by (simp add: sub_ids_absent)
      with "2.IH"(2) 2 d \<open>k \<noteq> j\<close> show ?thesis by simp
    qed
  qed
qed

text \<open>Assignments to text and tail keep the shape.\<close>

lemma labels_set_tail [simp]:
  "map (\<lambda>e. (eid e, etag e)) (iter (set_tail i v F)) = map (\<lambda>e. (eid e, etag e)) (iter F)"
  by (induction i v F rule: set_tail.induct) auto

lemma labels_set_text [simp]:
  "map (\<lambda>e. (eid e, etag e)) (iter (set_text i v F)) = map (\<lambda>e. (eid e, etag e)) (iter F)"
  by (induction i v F rule: set_text.induct) auto

lemma ids_labels: "ids F = map fst (map (\<lambda>e. (eid e, etag e)) (iter F))"
  by (simp add: ids_def comp_def)

lemma ids_set_tail [simp]: "ids (set_tail i v F) = ids F"
  by (simp add: ids_labels)

lemma ids_set_text [simp]: "ids (set_text i v F) = ids F"
  by (simp add: ids_labels)

lemma roots_set_tail [simp]: "map eid (set_tail i v F) = map eid F"
  by (induction i v F rule: set_tail.induct) auto

lemma roots_set_text [simp]: "map eid (set_text i v F) = map eid F"
  by (induction i v F rule: set_text.induct) auto

lemma child_ids_set_tail [simp]: "child_ids (set_tail i v F) = child_ids F"
  by (induction i v F rule: set_tail.induct) auto

lemma child_ids_set_text [simp]: "child_ids (set_text i v F) = child_ids F"
  by (induction i v F rule: set_text.induct) auto

lemma under_set_tail [simp]: "under r (set_tail i v F) = under r F"
  by (induction i v F rule: set_tail.induct) auto

lemma under_set_text [simp]: "under r (set_text i v F) = under r F"
  by (induction i v F rule: set_text.induct) auto

lemma iter_ids_set_tail [simp]: "map eid (iter (set_tail i v F)) = map eid (iter F)"
  using ids_set_tail by (simp add: ids_def)

lemma iter_ids_set_text [simp]: "map eid (iter (set_text i v F)) = map eid (iter F)"
  using ids_set_text by (simp add: ids_def)

lemma sub_ids_set_tail [simp]: "sub_ids k (set_tail i v F) = sub_ids k F"
  by (induction i v F rule: set_tail.induct) auto

lemma sub_ids_set_text [simp]: "sub_ids k (set_text i v F) = sub_ids k F"
  by (induction i v F rule: set_text.induct) auto

text \<open>Children after unlinking and after the assignments.\<close>

lemma kids_append [simp]: "kids r (A @ B) = kids r A @ kids r B"
  by (induction r A rule: kids.induct) auto

lemma kids_under: "set (kids r F) \<subseteq> set (under r F)"
proof (induction r F rule: kids.induct)
  case (1 r)
  then show ?case by simp
next
  case (2 r j t a x cs l es)
  with roots_in_iter [of cs] show ?case by auto
qed

lemma kids_absent: "r \<notin> set (ids F) \<Longrightarrow> kids r F = []"
  using kids_under [of r F] by (simp add: under_absent)

lemma label_roots_unlink [simp]:
  "map (\<lambda>e. (eid e, etag e)) (unlink p i F) = map (\<lambda>e. (eid e, etag e)) F"
  by (induction p i F rule: unlink.induct) auto

lemma label_roots_set_tail [simp]:
  "map (\<lambda>e. (eid e, etag e)) (set_tail i v F) = map (\<lambda>e. (eid e, etag e)) F"
  by (induction i v F rule: set_tail.induct) auto

lemma label_roots_set_text [simp]:
  "map (\<lambda>e. (eid e, etag e)) (set_text i v F) = map (\<lambda>e. (eid e, etag e)) F"
  by (induction i v F rule: set_text.induct) auto

lemma kids_filter_subset: "set (kids r (filter P cs)) \<subseteq> set (kids r cs)"
  by (induction r cs rule: kids.induct) auto

lemma kids_unlink_subset: "set (kids r (unlink p i F)) \<subseteq> set (kids r F)"
proof (induction p i F rule: unlink.induct)
  case (1 p i)
  then show ?case by simp
next
  case (2 p i j t a x cs l es)
  have "(\<lambda>e. (eid e, etag e)) ` set (unlink p i cs) = (\<lambda>e. (eid e, etag e)) ` set cs"
    using label_roots_unlink [of p i cs] by (metis set_map)
  with 2 show ?case
    using kids_filter_subset [of r "\<lambda>c. eid c \<noteq> i" cs] by auto
qed

lemma kids_set_tail [simp]: "kids r (set_tail i v F) = kids r F"
  by (induction i v F rule: set_tail.induct) auto

lemma kids_set_text [simp]: "kids r (set_text i v F) = kids r F"
  by (induction i v F rule: set_text.induct) auto

lemma kids_lookup:
  "distinct (ids F) \<Longrightarrow> lookup r F = Some e \<Longrightarrow>
   kids r F = map (\<lambda>e. (eid e, etag e)) (echildren e)"
proof (induction r F rule: lookup.induct)
  case (1 i)
  then show ?case by simp
next
  case (2 i j t a x cs l es)
  show ?case
  proof (cases "i = j")
    case True
    with "2.prems" have "kids i es = []" by (intro kids_absent) auto
    with True "2.prems" show ?thesis by auto
  next
    case False
    show ?thesis
    proof (cases "lookup i cs")
      case None
      then have "kids i cs = []" by (simp add: kids_absent lookup_None_iff)
      with 2 False None show ?thesis by auto
    next
      case (Some e')
      then have "i \<in> set (ids cs)" using lookup_None_iff [of i cs] by auto
      with "2.prems"(1) have "i \<notin> set (ids es)" by auto
      then have "kids i es = []" by (rule kids_absent)
      with 2 False Some show ?thesis by auto
    qed
  qed
qed

text \<open>
  One turn of the loop, for an item that has a parent and does not contain \<open>r\<close>: it
  does not raise, the forest stays well formed, every other element keeps its parent, and
  the item is no longer beneath \<open>r\<close>.
\<close>

lemma remove_item_step:
  assumes wf: "distinct (ids F)" and par: "i \<in> set (child_ids F)" and above: "r \<notin> set (sub_ids i F)"
  shows "\<exists>F'. remove_item i F = Inr F' \<and> distinct (ids F') \<and> set (ids F') = set (ids F)
           \<and> (\<forall>k. k \<noteq> i \<longrightarrow> k \<in> set (child_ids F) \<longrightarrow> k \<in> set (child_ids F'))
           \<and> (\<forall>k. set (sub_ids k F') \<subseteq> set (sub_ids k F))
           \<and> set (under r F') \<subseteq> set (under r F) \<and> i \<notin> fst ` set (under r F')
           \<and> set (kids r F') \<subseteq> set (kids r F)"
proof -
  from par obtain p where p: "getparent i F = Some p"
    using getparent_iff [of i F] by auto
  then have "i \<in> set (ids F)" and pin: "p \<in> set (ids F)"
    using getparent_in_ids by blast+
  then obtain item where item: "lookup i F = Some item"
    using lookup_None_iff [of i F] by auto
  define F1 where "F1 = remove_child p item F"
  from lookup_in_iter [OF item] have mem: "item \<in> set (iter F)" and ei: "eid item = i"
    by simp_all
  have d1: "distinct (ids F1)" and s1: "set (ids F1) = set (ids F)"
    and ni: "i \<notin> set (ids (unlink p i F))"
    unfolding F1_def using remove_child_ids [OF wf p item] by blast+
  have c1: "\<forall>k. k \<noteq> i \<longrightarrow> k \<in> set (child_ids F) \<longrightarrow> k \<in> set (child_ids F1)"
    unfolding F1_def using child_ids_remove_child [OF wf item] by blast
  have sub1: "\<forall>k. set (sub_ids k F1) \<subseteq> set (sub_ids k F)"
    unfolding F1_def remove_child_def ei
    using sub_ids_unlink_subset [of _ p i F] sub_ids_member [OF mem] by auto
  from ids_item_sub_ids [OF item] above have "r \<notin> set (ids [item])"
    by auto
  then have "under r [item] = []"
    by (rule under_absent)
  then have u: "under r F1 = under r (unlink p i F)"
    by (simp add: F1_def remove_child_def ei)
  with under_unlink_subset [of r p i F] have u1: "set (under r F1) \<subseteq> set (under r F)"
    by simp
  from under_ids [of r "unlink p i F"] ni u have u2: "i \<notin> fst ` set (under r F1)"
    by auto
  from \<open>under r [item] = []\<close> kids_under [of r "[item]"] have "kids r [item] = []"
    by simp
  with kids_unlink_subset [of r p i F] have k1: "set (kids r F1) \<subseteq> set (kids r F)"
    by (simp add: F1_def remove_child_def ei)
  from pin s1 obtain pe where pe: "lookup p F1 = Some pe"
    using lookup_None_iff [of p F1] by auto
  have "remove_item i F = Inr F1
      \<or> (\<exists>k v. remove_item i F = Inr (set_tail k v F1))
      \<or> (\<exists>v. remove_item i F = Inr (set_text p v F1))"
    using item p pe by (simp add: remove_item_def Let_def F1_def) blast
  then consider "remove_item i F = Inr F1"
    | k v where "remove_item i F = Inr (set_tail k v F1)"
    | v where "remove_item i F = Inr (set_text p v F1)"
    by blast
  then show ?thesis
  proof cases
    case 1
    with d1 s1 c1 sub1 u1 u2 k1 show ?thesis by blast
  next
    case 2
    with d1 s1 c1 sub1 u1 u2 k1 show ?thesis by simp
  next
    case 3
    with d1 s1 c1 sub1 u1 u2 k1 show ?thesis by simp
  qed
qed

lemma remove_items_inv:
  "distinct (ids F) \<Longrightarrow> distinct items \<Longrightarrow> \<forall>k \<in> set items. k \<in> set (child_ids F) \<Longrightarrow>
   \<forall>k \<in> set items. r \<notin> set (sub_ids k F) \<Longrightarrow>
   \<exists>F'. remove_items items F = Inr F' \<and> distinct (ids F') \<and> set (ids F') = set (ids F)
      \<and> set (under r F') \<subseteq> set (under r F) \<and> fst ` set (under r F') \<inter> set items = {}
      \<and> set (kids r F') \<subseteq> set (kids r F)"
proof (induction items arbitrary: F)
  case Nil
  then show ?case by simp
next
  case (Cons i items)
  from Cons.prems have "i \<in> set (child_ids F)" "r \<notin> set (sub_ids i F)"
    by simp_all
  from remove_item_step [OF Cons.prems(1) this] obtain F1 where
    step: "remove_item i F = Inr F1" "distinct (ids F1)" "set (ids F1) = set (ids F)"
      "\<forall>k. k \<noteq> i \<longrightarrow> k \<in> set (child_ids F) \<longrightarrow> k \<in> set (child_ids F1)"
      "\<forall>k. set (sub_ids k F1) \<subseteq> set (sub_ids k F)"
      "set (under r F1) \<subseteq> set (under r F)" "i \<notin> fst ` set (under r F1)"
      "set (kids r F1) \<subseteq> set (kids r F)"
    by blast
  from Cons.prems(2) have di: "distinct items" "i \<notin> set items"
    by simp_all
  have "\<forall>k \<in> set items. k \<in> set (child_ids F1)"
    using step(4) Cons.prems(3) di(2) by auto
  moreover have "\<forall>k \<in> set items. r \<notin> set (sub_ids k F1)"
    using step(5) Cons.prems(4) by auto
  ultimately obtain F' where
    rest: "remove_items items F1 = Inr F'" "distinct (ids F')" "set (ids F') = set (ids F1)"
      "set (under r F') \<subseteq> set (under r F1)" "fst ` set (under r F') \<inter> set items = {}"
      "set (kids r F') \<subseteq> set (kids r F1)"
    using Cons.IH [OF step(2) di(1)] by blast
  from rest(4) step(7) have "i \<notin> fst ` set (under r F')"
    by auto
  with step rest show ?case
    by auto
qed

lemma roots_children_mset: "mset (ids F) = mset (map eid F) + mset (child_ids F)"
  by (induction F rule: child_ids.induct) auto

lemma ids_roots_children: "set (ids F) = eid ` set F \<union> set (child_ids F)"
  by (induction F rule: child_ids.induct) auto

lemma distinct_member: "distinct (ids F) \<Longrightarrow> e \<in> set (iter F) \<Longrightarrow> distinct (ids [e])"
  by (induction F rule: iter.induct) auto

text \<open>
  The loop over items that are beneath the element \<open>r\<close>: it does not raise, \<open>r\<close> stays
  in the forest, nothing new comes beneath it, and none of the items stays beneath it.
\<close>

lemma remove_items_beneath:
  assumes d: "distinct (ids F)" and r: "lookup r F = Some e"
    and di: "distinct items" and sub: "set items \<subseteq> eid ` set (iter (echildren e))"
  shows "\<exists>F' e'. remove_items items F = Inr F' \<and> distinct (ids F')
           \<and> set (ids F') = set (ids F) \<and> lookup r F' = Some e'
           \<and> set (map (\<lambda>e. (eid e, etag e)) (iter (echildren e')))
                \<subseteq> set (map (\<lambda>e. (eid e, etag e)) (iter (echildren e)))
           \<and> set (map (\<lambda>e. (eid e, etag e)) (echildren e'))
                \<subseteq> set (map (\<lambda>e. (eid e, etag e)) (echildren e))
           \<and> eid ` set (iter (echildren e')) \<inter> set items = {}"
proof -
  from lookup_in_iter [OF r] have mem: "e \<in> set (iter F)"
    by simp
  have u: "under r F = map (\<lambda>e. (eid e, etag e)) (iter (echildren e))"
    using under_lookup [OF d r] .
  have k: "kids r F = map (\<lambda>e. (eid e, etag e)) (echildren e)"
    using kids_lookup [OF d r] .
  from sub have sub': "set items \<subseteq> set (ids (echildren e))"
    by (simp add: ids_def)
  have "set (ids (echildren e)) \<subseteq> set (child_ids [e])"
    by (cases e) (simp add: ids_roots_children)
  with sub' child_ids_member [OF mem] have 2: "\<forall>k \<in> set items. k \<in> set (child_ids F)"
    by blast
  from sub have "set items \<subseteq> fst ` set (under r F)"
    unfolding u by force
  with under_not_above [OF d] have 3: "\<forall>k \<in> set items. r \<notin> set (sub_ids k F)"
    by blast
  from remove_items_inv [OF d di 2 3] obtain F' where
    F': "remove_items items F = Inr F'" "distinct (ids F')" "set (ids F') = set (ids F)"
      "set (under r F') \<subseteq> set (under r F)" "fst ` set (under r F') \<inter> set items = {}"
      "set (kids r F') \<subseteq> set (kids r F)"
    by blast
  from r F'(3) obtain e' where e': "lookup r F' = Some e'"
    using lookup_None_iff [of r F'] lookup_None_iff [of r F] by auto
  have u': "under r F' = map (\<lambda>e. (eid e, etag e)) (iter (echildren e'))"
    using under_lookup [OF F'(2) e'] .
  have k': "kids r F' = map (\<lambda>e. (eid e, etag e)) (echildren e')"
    using kids_lookup [OF F'(2) e'] .
  have "eid ` set (iter (echildren e')) = fst ` set (under r F')"
    unfolding u' by force
  with F' e' show ?thesis
    unfolding u u' k k' by auto
qed

lemma distinct_beneath:
  assumes "distinct (ids F)" and "lookup r F = Some e"
  shows "distinct (map eid (iter (echildren e)))"
proof -
  from lookup_in_iter [OF assms(2)] have "e \<in> set (iter F)"
    by simp
  from distinct_member [OF assms(1) this] show ?thesis
    by (cases e) (simp add: ids_def)
qed

lemma remove_node_descendants:
  assumes wf: "wf_forest F" and r: "lookup r F = Some e"
  shows "\<exists>F' e'. remove_node F (Some r) [Self, Desc t] = Inr F' \<and> wf_forest F'
           \<and> set (ids F') = set (ids F) \<and> lookup r F' = Some e'
           \<and> filter (\<lambda>c. etag c = t) (iterdescendants e') = []"
proof -
  let ?items = "map eid (filter (\<lambda>c. etag c = t) (iterdescendants e))"
  from wf have d: "distinct (ids F)"
    by (simp add: wf_forest_def ids_def)
  from distinct_beneath [OF d r] have 1: "distinct ?items"
    by (simp add: iterdescendants_def distinct_map_filter)
  have 2: "set ?items \<subseteq> eid ` set (iter (echildren e))"
    by (auto simp: iterdescendants_def)
  from remove_items_beneath [OF d r 1 2] obtain F' e' where
    F': "remove_items ?items F = Inr F'" "distinct (ids F')" "set (ids F') = set (ids F)"
      "lookup r F' = Some e'"
      "set (map (\<lambda>e. (eid e, etag e)) (iter (echildren e')))
         \<subseteq> set (map (\<lambda>e. (eid e, etag e)) (iter (echildren e)))"
      "eid ` set (iter (echildren e')) \<inter> set ?items = {}"
    by blast
  have "filter (\<lambda>c. etag c = t) (iterdescendants e') = []"
  proof (rule ccontr)
    assume "filter (\<lambda>c. etag c = t) (iterdescendants e') \<noteq> []"
    then obtain c where c: "c \<in> set (iter (echildren e'))" "etag c = t"
      by (auto simp: iterdescendants_def filter_empty_conv)
    with F'(5) have "(eid c, t) \<in> set (map (\<lambda>e. (eid e, etag e)) (iter (echildren e)))"
      by force
    then have "eid c \<in> set ?items"
      by (auto simp: iterdescendants_def)
    with c(1) F'(6) show False
      by blast
  qed
  moreover have "remove_node F (Some r) [Self, Desc t] = Inr F'"
    using r F'(1) by (simp add: remove_node_def findall_desc)
  moreover from F'(2) have "wf_forest F'"
    by (simp add: wf_forest_def ids_def)
  ultimately show ?thesis
    using F'(3,4) by blast
qed

lemma remove_node_children:
  assumes wf: "wf_forest F" and r: "lookup r F = Some e"
  shows "\<exists>F' e'. remove_node F (Some r) [Child t] = Inr F' \<and> wf_forest F'
           \<and> set (ids F') = set (ids F) \<and> lookup r F' = Some e'
           \<and> filter (\<lambda>c. etag c = t) (echildren e') = []"
proof -
  let ?items = "map eid (filter (\<lambda>c. etag c = t) (echildren e))"
  from wf have d: "distinct (ids F)"
    by (simp add: wf_forest_def ids_def)
  have roots: "set (echildren e) \<subseteq> set (iter (echildren e))"
    by (rule roots_in_iter)
  from distinct_beneath [OF d r] have "distinct (map eid (echildren e))"
    using roots_children_mset [of "echildren e"]
    by (metis distinct_append ids_def mset_append mset_eq_imp_distinct_iff)
  then have 1: "distinct ?items"
    by (simp add: distinct_map_filter)
  from roots have 2: "set ?items \<subseteq> eid ` set (iter (echildren e))"
    by auto
  from remove_items_beneath [OF d r 1 2] obtain F' e' where
    F': "remove_items ?items F = Inr F'" "distinct (ids F')" "set (ids F') = set (ids F)"
      "lookup r F' = Some e'"
      "set (map (\<lambda>e. (eid e, etag e)) (echildren e'))
         \<subseteq> set (map (\<lambda>e. (eid e, etag e)) (echildren e))"
      "eid ` set (iter (echildren e')) \<inter> set ?items = {}"
    by blast
  have "filter (\<lambda>c. etag c = t) (echildren e') = []"
  proof (rule ccontr)
    assume "filter (\<lambda>c. etag c = t) (echildren e') \<noteq> []"
    then obtain c where c: "c \<in> set (echildren e')" "etag c = t"
      by (auto simp: filter_empty_conv)
    with F'(5) have "(eid c, t) \<in> set (map (\<lambda>e. (eid e, etag e)) (echildren e))"
      by force
    then have "eid c \<in> set ?items"
      by auto
    moreover from c(1) roots_in_iter [of "echildren e'"] have "c \<in> set (iter (echildren e'))"
      by blast
    ultimately show False
      using F'(6) by blast
  qed
  moreover have "remove_node F (Some r) [Child t] = Inr F'"
    using r F'(1) by (simp add: remove_node_def findall_child)
  moreover from F'(2) have "wf_forest F'"
    by (simp add: wf_forest_def ids_def)
  ultimately show ?thesis
    using F'(3,4) by blast
qed

text \<open>
  Claim C3, as amended.  For a selector that picks the descendants with a given tag
  (\<^verbatim>\<open>.//tag\<close>, the form of every call in the program) or the children with a given tag
  (\<^verbatim>\<open>tag\<close>), and a subtree of a well-formed forest, \<^verbatim>\<open>remove_node\<close> returns, and a
  second run on the result returns it unchanged: no element is removed and no text or
  tail is modified.
\<close>

theorem remove_node_idempotent:
  assumes "wf_forest F" and "lookup r F = Some e"
    and "node = [Self, Desc t] \<or> node = [Child t]"
  shows "\<exists>F'. remove_node F (Some r) node = Inr F' \<and> remove_node F' (Some r) node = Inr F'"
proof -
  from assms(3) show ?thesis
  proof
    assume n: "node = [Self, Desc t]"
    from remove_node_descendants [OF assms(1,2)] obtain F' e' where
      "remove_node F (Some r) [Self, Desc t] = Inr F'" "lookup r F' = Some e'"
      "filter (\<lambda>c. etag c = t) (iterdescendants e') = []"
      by blast
    moreover from this have "remove_node F' (Some r) [Self, Desc t] = Inr F'"
      by (simp add: remove_node_def findall_desc)
    ultimately show ?thesis
      using n by blast
  next
    assume n: "node = [Child t]"
    from remove_node_children [OF assms(1,2)] obtain F' e' where
      "remove_node F (Some r) [Child t] = Inr F'" "lookup r F' = Some e'"
      "filter (\<lambda>c. etag c = t) (echildren e') = []"
      by blast
    moreover from this have "remove_node F' (Some r) [Child t] = Inr F'"
      by (simp add: remove_node_def findall_child)
    ultimately show ?thesis
      using n by blast
  qed
qed

theorem remove_node_idempotent_witness:
  "(\<exists>F'. remove_node ex_between (Some 0) [Self, Desc (akn ''authorialNote'')] = Inr F'
      \<and> remove_node F' (Some 0) [Self, Desc (akn ''authorialNote'')] = Inr F')
   \<and> (\<exists>F'. remove_node ex_between (Some 0) [Child (akn ''authorialNote'')] = Inr F'
      \<and> remove_node F' (Some 0) [Child (akn ''authorialNote'')] = Inr F')"
proof -
  have w: "wf_forest ex_between"
    by (simp add: wf_forest_def ex_between_def)
  have l: "lookup 0 ex_between = Some (hd ex_between)"
    by (simp add: ex_between_def)
  from remove_node_idempotent [OF w l, of "[Self, Desc (akn ''authorialNote'')]" "akn ''authorialNote''"]
    remove_node_idempotent [OF w l, of "[Child (akn ''authorialNote'')]" "akn ''authorialNote''"]
  show ?thesis by simp
qed

subsection \<open>Recitals\<close>

lemma dropWhile_head: "dropWhile P xs = y # ys \<Longrightarrow> \<not> P y"
  by (induction xs) (auto split: if_splits)

lemma single_spaced_re_sub_ws: "single_spaced (re_sub_ws s)"
proof (induction s rule: re_sub_ws.induct)
  case 1
  then show ?case by simp
next
  case (2 c cs)
  show ?case
  proof (cases "is_space c")
    case True
    show ?thesis
    proof (cases "dropWhile is_space cs")
      case Nil
      with True have "re_sub_ws (c # cs) = [CHR '' '']"
        by (simp del: dropWhile_eq_Nil_conv)
      then show ?thesis by simp
    next
      case (Cons d ds)
      then have "\<not> is_space d" by (rule dropWhile_head)
      with 2 True Cons show ?thesis by simp
    qed
  next
    case False
    with 2 show ?thesis by (cases "re_sub_ws cs") auto
  qed
qed

lemma iter_member_desc: "e \<in> set (iter F) \<Longrightarrow> set (iter (echildren e)) \<subseteq> set (iter F)"
  by (induction F rule: iter.induct) auto

lemma findall_desc_child_member:
  "e \<in> set (iter F) \<Longrightarrow> c \<in> set (findall G e [Self, Desc a, Child b]) \<Longrightarrow> c \<in> set (iter F)"
proof -
  assume e: "e \<in> set (iter F)" and "c \<in> set (findall G e [Self, Desc a, Child b])"
  then obtain d where d: "d \<in> set (iter (echildren e))" "c \<in> set (echildren d)"
    by (auto simp: findall_desc_child iterdescendants_def)
  from d(1) iter_member_desc [OF e] have "d \<in> set (iter F)" by blast
  from iter_member_desc [OF this] d(2) roots_in_iter [of "echildren d"] show ?thesis by blast
qed

lemma find_elem_member: "find_elem F e p = Some c \<Longrightarrow> c \<in> set (findall F e p)"
  by (auto simp: find_elem_def split: list.splits)

text \<open>
  Claim C5, as amended.  In a well-formed loaded document with a recitals section that
  has an intro, \<^verbatim>\<open>get_preamble_recitals\<close> returns a list.  Its first entry is the intro,
  read from the document as it was before the strip: the identifier of the intro and the
  space-joined trimmed direct texts of the intro's paragraph children that have a text.
  The notes are then stripped from the section, which leaves no note beneath it, and one
  entry follows for each recital child of the stripped section: for each paragraph child
  its text fragments joined by one space (not concatenated) and trimmed, the paragraphs
  joined by one space, and every run of whitespace replaced by one space.
\<close>

theorem recitals_intro_then_strip_then_recitals:
  assumes wf: "wf_forest (doc s)" and r: "self_root s = Inr r"
    and sec: "find_elem (doc s) r [Self, Desc (akn ''preamble''), Child (akn ''recitals'')] = Some sec"
    and intro: "find_elem (doc s) sec [Child (akn ''intro'')] = Some intro"
  shows "\<exists>F' sec'. remove_node (doc s) (Some (eid sec)) [Self, Desc (akn ''authorialNote'')] = Inr F'
           \<and> lookup (eid sec) F' = Some sec'
           \<and> filter (\<lambda>c. etag c = akn ''authorialNote'') (iterdescendants sec') = []
           \<and> get_preamble_recitals s =
               Inr (Some (\<lparr>recital_text =
                            join '' '' (map (\<lambda>p. strip (or_empty (etext p)))
                              (filter (\<lambda>p. truthy (etext p))
                                 (filter (\<lambda>c. etag c = akn ''p'') (echildren intro)))),
                          re_eId = get_attr intro ''eId''\<rparr>
                        # map (\<lambda>recital.
                            \<lparr>recital_text =
                               re_sub_ws (join '' '' (map (\<lambda>p. strip (join '' '' (itertext p)))
                                 (filter (\<lambda>c. etag c = akn ''p'') (echildren recital)))),
                             re_eId = Some (str (get_attr recital ''eId''))\<rparr>)
                            (filter (\<lambda>c. etag c = akn ''recital'') (echildren sec'))),
                    s\<lparr>doc := F'\<rparr>)
           \<and> (\<forall>recital. single_spaced (recital_text (recital_of F' recital)))"
proof -
  from r obtain i where "root s = Some i" "lookup i (doc s) = Some r"
    by (auto simp: self_root_def deref_def split: option.splits)
  then have "r \<in> set (iter (doc s))"
    using lookup_in_iter by blast
  from findall_desc_child_member [OF this find_elem_member [OF sec]]
  have "sec \<in> set (iter (doc s))" .
  with wf have l: "lookup (eid sec) (doc s) = Some sec"
    by (simp add: wf_forest_def lookup_unique ids_def)
  from remove_node_descendants [OF wf l, of "akn ''authorialNote''"] obtain F' sec' where
    F': "remove_node (doc s) (Some (eid sec)) [Self, Desc (akn ''authorialNote'')] = Inr F'"
      "lookup (eid sec) F' = Some sec'"
      "filter (\<lambda>c. etag c = akn ''authorialNote'') (iterdescendants sec') = []"
    by blast
  have "get_preamble_recitals s =
               Inr (Some (intro_entry (doc s) intro
                        # map (recital_of F') (findall F' sec' [Child (akn ''recital'')])),
                    s\<lparr>doc := F'\<rparr>)"
    using r sec intro F'(1,2)
    by (simp add: get_preamble_recitals_def note_path_def deref_def)
  moreover have "\<forall>recital. single_spaced (recital_text (recital_of F' recital))"
    by (simp add: recital_of_def single_spaced_re_sub_ws)
  ultimately show ?thesis
    using F' by (simp add: intro_entry_def recital_of_def findall_child cong: map_cong)
qed


theorem recitals_intro_then_strip_then_recitals_witness:
  "map_sum id fst (get_preamble_recitals ex_recitals) =
     Inr (Some [\<lparr>recital_text = ''Whereas:'', re_eId = Some ''intro_1''\<rparr>,
                \<lparr>recital_text = ''(1) First recital second par'', re_eId = Some ''rec_1''\<rparr>,
                \<lparr>recital_text = [], re_eId = Some ''None''\<rparr>])"
proof -
  have d: "doc ex_recitals = [recitals_doc]"
    by (simp add: ex_recitals_def get_root_def init_def)
  have w: "wf_forest (doc ex_recitals)"
    by (simp add: d wf_forest_def recitals_doc_def recitals_section_def)
  have r: "self_root ex_recitals = Inr recitals_doc"
    by (simp add: ex_recitals_def get_root_def init_def self_root_def deref_def recitals_doc_def)
  have f: "find_elem (doc ex_recitals) recitals_doc
             [Self, Desc (akn ''preamble''), Child (akn ''recitals'')] = Some recitals_section"
    by (simp add: find_elem_def findall_def iterdescendants_def recitals_doc_def
          recitals_section_def)
  have i: "find_elem (doc ex_recitals) recitals_section [Child (akn ''intro'')] =
             Some (hd (echildren recitals_section))"
    by (simp add: find_elem_child recitals_section_def)
  have n: "remove_node (doc ex_recitals) (Some (eid recitals_section))
             [Self, Desc (akn ''authorialNote'')] =
           Inr [Elem 0 (akn ''akomaNtoso'') [] None
                  [Elem 1 (akn ''preamble'') [] None
                     [Elem 2 (akn ''recitals'') [] None
                        [Elem 3 (akn ''intro'') [(''eId'', ''intro_1'')] None
                           [Elem 4 (akn ''p'') [] (Some '' Whereas: tail'') [] None,
                            Elem 6 (akn ''p'') [] None [] None] None,
                         Elem 7 (akn ''recital'') [(''eId'', ''rec_1'')] None
                           [Elem 8 (akn ''p'') [] (Some ''(1) First   recital '') [] None,
                            Elem 10 (akn ''p'') [] (Some ''second  par'') [] None] None,
                         Elem 11 (akn ''recital'') [] None [] None] None] None] None,
                Elem 5 (akn ''authorialNote'') [] (Some ''n0'') [] (Some ''tail''),
                Elem 9 (akn ''authorialNote'') [] (Some ''n1'') [] (Some ''   recital '')]"
    by (simp add: d recitals_doc_def recitals_section_def remove_node_def remove_item_def
          remove_child_def findall_def iterdescendants_def)
  from recitals_intro_then_strip_then_recitals [OF w r f i] n
  show ?thesis
    by (auto simp: recitals_section_def get_attr_def itertext_def strip_def is_space_def)
qed

text \<open>
  Claim C5, as stated, fails where a paragraph of a recital has inline markup: the text
  of the entry is not the descendant text of the paragraph.  For
  \<^verbatim>\<open><p>Regu<i>lation</i>s</p>\<close> the descendant text is \<^verbatim>\<open>Regulations\<close>, and the entry
  reads \<^verbatim>\<open>Regu lation s\<close>, since the fragments are joined by a space.
\<close>

theorem recital_text_puts_spaces_between_fragments:
  "map_sum id fst (get_preamble_recitals ex_inline) =
     Inr (Some [\<lparr>recital_text = ''Whereas:'', re_eId = Some ''intro_1''\<rparr>,
                \<lparr>recital_text = ''Regu lation s'', re_eId = Some ''rec_1''\<rparr>])
   \<and> strip (concat (itertext inline_p)) = ''Regulations''"
  by (simp add: ex_inline_def inline_doc_def inline_p_def get_preamble_recitals_def eval_simps
        doc_simps intro_entry_def recital_of_def strip_def is_space_def)

subsection \<open>Paragraph grouping\<close>

lemma walk_up_None: "List.find has_eId up = None \<Longrightarrow> \<not> truthy (walk_up up)"
  by (induction up rule: walk_up.induct) (auto simp: has_eId_def Let_def split: if_splits)

lemma walk_up_Some:
  "List.find has_eId up = Some a \<Longrightarrow>
   walk_up up = get_attr a ''eId'' \<and> truthy (get_attr a ''eId'')"
  by (induction up rule: walk_up.induct) (auto simp: has_eId_def Let_def split: if_splits)

lemma text_loop_map_filter:
  "text_loop F ps acc =
     acc @ List.map_filter
       (\<lambda>p. case List.find has_eId (ancestors_or_self (eid p) F) of
               None \<Rightarrow> None
             | Some a \<Rightarrow> Some \<lparr>te_eId = or_empty (get_attr a ''eId''),
                               te_text = strip (concat (itertext p))\<rparr>) ps"
proof (induction ps arbitrary: acc)
  case Nil
  then show ?case by simp
next
  case (Cons p ps)
  show ?case
  proof (cases "List.find has_eId (ancestors_or_self (eid p) F)")
    case None
    then have "\<not> truthy (walk_up (ancestors_or_self (eid p) F))"
      by (rule walk_up_None)
    with None Cons.IH show ?thesis
      by (simp add: Let_def)
  next
    case (Some a)
    then have "truthy (walk_up (ancestors_or_self (eid p) F))"
      "walk_up (ancestors_or_self (eid p) F) = get_attr a ''eId''"
      using walk_up_Some by simp_all
    with Some Cons.IH show ?thesis
      by (simp add: Let_def)
  qed
qed


text \<open>The list of ancestors is the one that \<^verbatim>\<open>getparent()\<close> yields step by step.\<close>

lemma chain_subset: "set (ancestors_or_self i F) \<subseteq> set (iter F)"
  by (induction i F rule: ancestors_or_self.induct) (auto split: list.splits)

lemma chain_Nil_iff: "ancestors_or_self i F = [] \<longleftrightarrow> i \<notin> set (ids F)"
  by (induction i F rule: ancestors_or_self.induct) (auto split: list.splits)

lemma root_not_child:
  assumes "distinct (ids F)" "i \<in> eid ` set F"
  shows "i \<notin> set (child_ids F)"
proof -
  have "mset (ids F) = mset (map eid F @ child_ids F)"
    by (simp add: roots_children_mset)
  with assms(1) have "distinct (map eid F @ child_ids F)"
    by (metis mset_eq_imp_distinct_iff)
  with assms(2) show ?thesis
    by auto
qed

lemma getparent_None_iff: "getparent i F = None \<longleftrightarrow> i \<notin> set (child_ids F)"
  using getparent_iff [of i F] by blast

lemma chain_getparent:
  "distinct (ids F) \<Longrightarrow> ancestors_or_self i F = c # up \<Longrightarrow>
   lookup i F = Some c
   \<and> (case up of [] \<Rightarrow> getparent i F = None
       | q # _ \<Rightarrow> getparent i F = Some (eid q) \<and> ancestors_or_self (eid q) F = up)"
proof (induction i F arbitrary: c up rule: ancestors_or_self.induct)
  case (1 i)
  then show ?case by simp
next
  case (2 i j t a x cs l es)
  let ?root = "Elem j t a x cs l"
  from "2.prems"(1) have d: "distinct (ids cs)" "distinct (ids es)" "j \<notin> set (ids cs)"
    "j \<notin> set (ids es)" "set (ids cs) \<inter> set (ids es) = {}"
    by auto
  show ?case
  proof (cases "i = j")
    case True
    with "2.prems"(2) have "c = ?root" "up = []" by simp_all
    moreover from d True have "i \<notin> set (child_ids (?root # es))"
      using child_ids_subset [of cs] child_ids_subset [of es] root_ids [of _ cs] by auto
    then have "getparent i (?root # es) = None"
      using getparent_None_iff by blast
    ultimately show ?thesis using True by (simp del: getparent.simps)
  next
    case False
    show ?thesis
    proof (cases "ancestors_or_self i cs")
      case Nil
      then have nin: "i \<notin> set (ids cs)" by (simp add: chain_Nil_iff)
      then have "lookup i cs = None" "getparent i cs = None" "i \<notin> eid ` set cs"
        using child_ids_subset [of cs] root_ids [of _ cs]
        by (auto simp: lookup_None_iff getparent_None_iff)
      moreover from Nil False "2.prems"(2) have ch: "ancestors_or_self i es = c # up" by simp
      moreover note IH = "2.IH"(2) [OF False Nil d(2) ch]
      moreover have "ancestors_or_self (eid q) (?root # es) = ancestors_or_self (eid q) es"
        if "q \<in> set up" for q
      proof -
        from that ch chain_subset [of i es] have "eid q \<in> set (ids es)"
          by (auto simp: ids_def)
        with d have "eid q \<noteq> j" "eid q \<notin> set (ids cs)" by auto
        then show ?thesis by (simp add: chain_Nil_iff [THEN iffD2])
      qed
      ultimately show ?thesis using False by (cases up) auto
    next
      case (Cons c' up')
      with False "2.prems"(2) have c: "c = c'" and up: "up = up' @ [?root]" by simp_all
      note IH = "2.IH"(1) [OF False d(1) Cons]
      from IH have lk: "lookup i (?root # es) = Some c" using False c by simp
      show ?thesis
      proof (cases up')
        case Nil
        with IH have "getparent i cs = None" by simp
        then have "i \<notin> set (child_ids cs)" by (simp add: getparent_None_iff)
        moreover from Cons have "i \<in> set (ids cs)" using chain_Nil_iff [of i cs] by auto
        ultimately have "i \<in> eid ` set cs" by (simp add: ids_roots_children)
        with lk up Nil show ?thesis by simp
      next
        case (Cons q ups)
        with IH have gp: "getparent i cs = Some (eid q)" and ch: "ancestors_or_self (eid q) cs = up'"
          by simp_all
        from gp have "i \<in> set (child_ids cs)" using getparent_iff [of i cs] by simp
        then have "i \<notin> eid ` set cs" using root_not_child [OF d(1)] by blast
        moreover from gp have "eid q \<in> set (ids cs)" using getparent_in_ids by blast
        with d have "eid q \<noteq> j" by auto
        ultimately show ?thesis using lk up Cons gp ch by (simp add: image_iff)
      qed
    qed
  qed
qed

lemma child_in_child_ids:
  "e \<in> set (iter F) \<Longrightarrow> c \<in> set (echildren e) \<Longrightarrow> eid c \<in> set (child_ids F)"
  by (induction F rule: child_ids.induct) auto

lemma getparent_child:
  "distinct (ids F) \<Longrightarrow> e \<in> set (iter F) \<Longrightarrow> c \<in> set (echildren e) \<Longrightarrow>
   getparent (eid c) F = Some (eid e)"
proof (induction F rule: iter.induct)
  case 1
  then show ?case by simp
next
  case (2 j t a x cs l es)
  from "2.prems"(1) have d: "distinct (ids cs)" "distinct (ids es)" "j \<notin> set (ids cs)"
    "j \<notin> set (ids es)" "set (ids cs) \<inter> set (ids es) = {}"
    by auto
  from "2.prems"(2) consider "e = Elem j t a x cs l" | "e \<in> set (iter cs)" | "e \<in> set (iter es)"
    by auto
  then show ?case
  proof cases
    case 1
    with "2.prems"(3) show ?thesis by auto
  next
    case 2
    from child_in_child_ids [OF 2 "2.prems"(3)] have "eid c \<in> set (child_ids cs)" .
    then have "eid c \<notin> eid ` set cs" using root_not_child [OF d(1)] by blast
    moreover from "2.IH"(1) [OF d(1) 2 "2.prems"(3)] have "getparent (eid c) cs = Some (eid e)" .
    ultimately show ?thesis by (simp add: image_iff)
  next
    case 3
    from child_in_child_ids [OF 3 "2.prems"(3)] have "eid c \<in> set (child_ids es)" .
    then have "eid c \<in> set (ids es)" using child_ids_subset by blast
    with d have "eid c \<notin> set (ids cs)" by auto
    then have "eid c \<notin> eid ` set cs" "getparent (eid c) cs = None"
      using root_ids [of _ cs] child_ids_subset [of cs] by (auto simp: getparent_None_iff)
    moreover from "2.IH"(2) [OF d(2) 3 "2.prems"(3)] have "getparent (eid c) es = Some (eid e)" .
    ultimately show ?thesis by (simp add: image_iff)
  qed
qed

lemma chain_child:
  assumes d: "distinct (ids F)" and e: "e \<in> set (iter F)" and c: "c \<in> set (echildren e)"
  shows "ancestors_or_self (eid c) F = c # ancestors_or_self (eid e) F"
proof -
  from c roots_in_iter [of "echildren e"] iter_member_desc [OF e] have cm: "c \<in> set (iter F)"
    by blast
  then have "eid c \<in> set (ids F)" by (auto simp: ids_def)
  then obtain c' up where ch: "ancestors_or_self (eid c) F = c' # up"
    using chain_Nil_iff [of "eid c" F] by (cases "ancestors_or_self (eid c) F") auto
  from chain_getparent [OF d ch] lookup_unique [OF d cm] have "c' = c" by simp
  from chain_getparent [OF d ch] getparent_child [OF d e c]
  obtain q ups where "up = q # ups" "eid q = eid e" "ancestors_or_self (eid q) F = up"
    by (cases up) auto
  with ch \<open>c' = c\<close> show ?thesis by simp
qed

lemma map_filter_append: "List.map_filter f (xs @ ys) = List.map_filter f xs @ List.map_filter f ys"
  by (simp add: List.map_filter_def)

lemma found_truthy:
  assumes "List.find has_eId up = Some a"
  shows "or_empty (get_attr a ''eId'') \<noteq> []"
proof -
  from assms have "has_eId a"
    by (auto simp: find_Some_iff)
  then show ?thesis
    by (cases "get_attr a ''eId''") (auto simp: has_eId_def)
qed

lemma entries_below_correct:
  "distinct (ids F) \<Longrightarrow>
   \<forall>c \<in> set es. c \<in> set (iter F) \<and> ancestors_or_self (eid c) F = c # up \<Longrightarrow>
   List.map_filter (entry_of F) (filter (\<lambda>e. etag e = akn ''p'') (iter es)) =
     entries_below (map_option (\<lambda>a. or_empty (get_attr a ''eId'')) (List.find has_eId up)) es"
proof (induction es arbitrary: up rule: iter.induct)
  case 1
  then show ?case by simp
next
  case (2 j t a x cs l es)
  let ?root = "Elem j t a x cs l"
  let ?inh = "map_option (\<lambda>a. or_empty (get_attr a ''eId'')) (List.find has_eId up)"
  define own where "own = (if has_eId ?root then get_attr ?root ''eId'' else ?inh)"
  define entry where
    "entry = \<lparr>te_eId = or_empty own, te_text = strip (concat (itertext ?root))\<rparr>"
  from "2.prems"(2) have rm: "?root \<in> set (iter F)" and rc: "ancestors_or_self j F = ?root # up"
    by auto
  have own: "map_option (\<lambda>a. or_empty (get_attr a ''eId'')) (List.find has_eId (?root # up)) = own"
    unfolding own_def by (cases "get_attr ?root ''eId''") (auto simp: has_eId_def)
  have "\<forall>c \<in> set cs. c \<in> set (iter F) \<and> ancestors_or_self (eid c) F = c # ?root # up"
  proof
    fix c assume c: "c \<in> set cs"
    then have "c \<in> set (echildren ?root)" by simp
    from chain_child [OF "2.prems"(1) rm this] rc
    have "ancestors_or_self (eid c) F = c # ?root # up" by simp
    moreover from c roots_in_iter [of cs] iter_member_desc [OF rm] have "c \<in> set (iter F)"
      by auto
    ultimately show "c \<in> set (iter F) \<and> ancestors_or_self (eid c) F = c # ?root # up" by simp
  qed
  from "2.IH"(1) [OF "2.prems"(1) this]
  have cs: "List.map_filter (entry_of F) (filter (\<lambda>e. etag e = akn ''p'') (iter cs)) =
              entries_below own cs"
    by (simp only: own)
  from "2.prems"(2) have "\<forall>c \<in> set es. c \<in> set (iter F) \<and> ancestors_or_self (eid c) F = c # up"
    by simp
  from "2.IH"(2) [OF "2.prems"(1) this]
  have es: "List.map_filter (entry_of F) (filter (\<lambda>e. etag e = akn ''p'') (iter es)) =
              entries_below ?inh es" .
  have truthy: "truthy own \<longleftrightarrow> List.find has_eId (?root # up) \<noteq> None"
  proof (cases "has_eId ?root")
    case True
    then show ?thesis by (simp add: has_eId_def own_def)
  next
    case False
    then show ?thesis
      using found_truthy [of up] by (cases "List.find has_eId up") (auto simp: own_def)
  qed
  have root: "entry_of F ?root = (if truthy own then Some entry else None)"
  proof (cases "List.find has_eId (?root # up)")
    case None
    with truthy have "\<not> truthy own" by simp
    moreover from None rc have "entry_of F ?root = None"
      by (simp add: entry_of_def del: find.simps)
    ultimately show ?thesis by simp
  next
    case (Some b)
    with truthy have "truthy own" by simp
    moreover from Some own have "own = Some (or_empty (get_attr b ''eId''))"
      by (simp del: find.simps)
    then have "or_empty own = or_empty (get_attr b ''eId'')"
      by (simp only: or_empty.simps)
    moreover from Some rc have "entry_of F ?root =
        Some \<lparr>te_eId = or_empty (get_attr b ''eId''), te_text = strip (concat (itertext ?root))\<rparr>"
      by (simp add: entry_of_def del: find.simps)
    ultimately show ?thesis by (simp only: if_True entry_def)
  qed
  have lhs: "List.map_filter (entry_of F) (filter (\<lambda>e. etag e = akn ''p'') (iter (?root # es))) =
      (if t = akn ''p'' then (case entry_of F ?root of None \<Rightarrow> [] | Some y \<Rightarrow> [y]) else [])
      @ List.map_filter (entry_of F) (filter (\<lambda>e. etag e = akn ''p'') (iter cs))
      @ List.map_filter (entry_of F) (filter (\<lambda>e. etag e = akn ''p'') (iter es))"
    by (simp add: map_filter_append split: option.splits)
  have rhs: "entries_below ?inh (?root # es) =
      (if t = akn ''p'' \<and> truthy own then [entry] else [])
      @ entries_below own cs @ entries_below ?inh es"
    by (auto simp: Let_def own_def entry_def)
  show ?case
    unfolding lhs rhs cs es root by simp
qed

text \<open>
  Claim C1.  \<^verbatim>\<open>get_text_by_eId\<close> returns, for the paragraphs beneath the node in document
  order, one entry for each paragraph that has, among itself and its ancestors up to the
  root of the document, an element with a non-empty \<^verbatim>\<open>eId\<close>: the identifier of the
  nearest such element and the trimmed descendant text of the paragraph.  A paragraph
  without such an element has no entry, and entries with the same identifier stay
  separate.  In a well-formed document this is what a pass from the node downward
  computes, in which every element hands to its children its own non-empty identifier or
  else the one it inherited.
\<close>

theorem get_text_by_eId_nearest_identified:
  "get_text_by_eId F node = spec_text_by_eId F node
   \<and> (wf_forest F \<and> lookup n F = Some node \<longrightarrow>
        get_text_by_eId F node = entries_below (nearest_eId F n) (echildren node))"
proof (intro conjI impI)
  show 1: "get_text_by_eId F node = spec_text_by_eId F node"
    by (simp add: get_text_by_eId_def spec_text_by_eId_def text_loop_map_filter findall_desc)
  assume "wf_forest F \<and> lookup n F = Some node"
  then have d: "distinct (ids F)" and l: "lookup n F = Some node"
    by (simp_all add: wf_forest_def ids_def)
  from lookup_in_iter [OF l] have m: "node \<in> set (iter F)" and n: "eid node = n"
    by simp_all
  have "\<forall>c \<in> set (echildren node).
          c \<in> set (iter F) \<and> ancestors_or_self (eid c) F = c # ancestors_or_self n F"
    using chain_child [OF d m] roots_in_iter [of "echildren node"] iter_member_desc [OF m] n
    by auto
  from entries_below_correct [OF d this]
  show "get_text_by_eId F node = entries_below (nearest_eId F n) (echildren node)"
    by (simp add: get_text_by_eId_def text_loop_map_filter findall_desc iterdescendants_def
          nearest_eId_def entry_of_def [abs_def])
qed

theorem get_text_by_eId_nearest_identified_witness:
  "get_text_by_eId [grouping_doc] grouping_doc =
     [\<lparr>te_eId = ''1'', te_text = ''p1''\<rparr>, \<lparr>te_eId = ''1'', te_text = ''p2''\<rparr>,
      \<lparr>te_eId = ''2'', te_text = ''p3''\<rparr>, \<lparr>te_eId = ''art_1'', te_text = ''p4''\<rparr>]"
proof -
  have w: "wf_forest [grouping_doc] \<and> lookup 0 [grouping_doc] = Some grouping_doc"
    by (simp add: wf_forest_def grouping_doc_def)
  have n: "nearest_eId [grouping_doc] 0 = None"
    by (simp add: nearest_eId_def grouping_doc_def has_eId_def get_attr_def)
  from get_text_by_eId_nearest_identified [of "[grouping_doc]" grouping_doc 0] w
  have "get_text_by_eId [grouping_doc] grouping_doc =
          entries_below (nearest_eId [grouping_doc] 0) (echildren grouping_doc)"
    by blast
  then show ?thesis
    unfolding n
    by (simp add: grouping_doc_def has_eId_def get_attr_def itertext_def strip_def is_space_def)
qed

subsection \<open>The order of the calls\<close>

lemma filter_Cons_member: "filter P xs = y # ys \<Longrightarrow> y \<in> set xs"
  by (induction xs) (auto split: if_splits)

text \<open>
  Claim C9, as amended.  \<^verbatim>\<open>get_articles\<close> raises when \<^verbatim>\<open>self.body\<close> was never assigned or
  holds \<^verbatim>\<open>None\<close>; once \<^verbatim>\<open>get_body\<close> has located a body in a well-formed document, it
  returns.  On a loaded document \<^verbatim>\<open>get_chapters\<close>, \<^verbatim>\<open>get_body\<close> and \<^verbatim>\<open>get_act\<close> succeed
  whatever \<^verbatim>\<open>self.body\<close> is, and leave the document as it is.  The results of the
  operations that strip nothing (the three metadata extractors, preface, formula,
  chapters, body and act) depend on the document and the root only, so they are the same
  in any order among themselves.
\<close>

theorem call_order:
  "((body s = None \<or> body s = Some None) \<longrightarrow> get_articles s = Inl AttributeError)
   \<and> (self_root s = Inr r \<longrightarrow>
        (\<exists>s'. get_chapters s = Inr s' \<and> doc s' = doc s \<and> root s' = root s \<and> body s' = body s)
        \<and> (\<exists>s'. get_body s = Inr s' \<and> doc s' = doc s \<and> root s' = root s)
        \<and> (\<exists>s'. get_act s = Inr s' \<and> doc s' = doc s \<and> root s' = root s))
   \<and> (wf_forest (doc s) \<and> self_root s = Inr r
        \<and> find_or (doc s) r [Self, Desc (akn ''body'')] [Self, Desc (plain ''body'')] = Some b \<longrightarrow>
        (\<exists>s1 arts s2. get_body s = Inr s1 \<and> body s1 = Some (Some (eid b))
            \<and> get_articles s1 = Inr (arts, s2)))
   \<and> (doc t = doc s \<and> root t = root s \<longrightarrow>
        get_meta_identification t = get_meta_identification s
        \<and> get_meta_references t = get_meta_references s
        \<and> get_meta_proprietary t = get_meta_proprietary s
        \<and> get_preface t = get_preface s
        \<and> get_preamble_formula t = get_preamble_formula s
        \<and> map_sum id chapters (get_chapters t) = map_sum id chapters (get_chapters s)
        \<and> map_sum id body (get_body t) = map_sum id body (get_body s)
        \<and> map_sum id act (get_act t) = map_sum id act (get_act s))"
proof (intro conjI impI)
  assume "body s = None \<or> body s = Some None"
  then show "get_articles s = Inl AttributeError"
    by (auto simp: get_articles_def remove_node_def)
next
  assume "self_root s = Inr r"
  then show "\<exists>s'. get_chapters s = Inr s' \<and> doc s' = doc s \<and> root s' = root s \<and> body s' = body s"
    by (simp add: get_chapters_def)
next
  assume "self_root s = Inr r"
  then show "\<exists>s'. get_body s = Inr s' \<and> doc s' = doc s \<and> root s' = root s"
    by (simp add: get_body_def)
next
  assume "self_root s = Inr r"
  then show "\<exists>s'. get_act s = Inr s' \<and> doc s' = doc s \<and> root s' = root s"
    by (simp add: get_act_def)
next
  assume h: "wf_forest (doc s) \<and> self_root s = Inr r
        \<and> find_or (doc s) r [Self, Desc (akn ''body'')] [Self, Desc (plain ''body'')] = Some b"
  then have wf: "wf_forest (doc s)" and r: "self_root s = Inr r"
    and f: "find_or (doc s) r [Self, Desc (akn ''body'')] [Self, Desc (plain ''body'')] = Some b"
    by simp_all
  from r obtain i where "lookup i (doc s) = Some r"
    by (auto simp: self_root_def deref_def split: option.splits)
  then have rm: "r \<in> set (iter (doc s))"
    using lookup_in_iter by blast
  from f have "b \<in> set (iterdescendants r)"
    by (auto simp: find_or_def find_elem_def findall_desc split: option.splits list.splits
          dest: filter_Cons_member)
  with iter_member_desc [OF rm] have "b \<in> set (iter (doc s))"
    by (auto simp: iterdescendants_def)
  with wf have l: "lookup (eid b) (doc s) = Some b"
    by (simp add: wf_forest_def lookup_unique ids_def)
  from remove_node_descendants [OF wf l, of "akn ''authorialNote''"] obtain F' e' where
    "remove_node (doc s) (Some (eid b)) [Self, Desc (akn ''authorialNote'')] = Inr F'"
    "lookup (eid b) F' = Some e'"
    by blast
  then have "\<exists>arts s2. get_articles (s\<lparr>body := Some (Some (eid b))\<rparr>) = Inr (arts, s2)"
    by (simp add: get_articles_def note_path_def deref_def Let_def)
  moreover from r f have "get_body s = Inr (s\<lparr>body := Some (Some (eid b))\<rparr>)"
    by (simp add: get_body_def)
  ultimately show "\<exists>s1 arts s2. get_body s = Inr s1 \<and> body s1 = Some (Some (eid b))
            \<and> get_articles s1 = Inr (arts, s2)"
    by auto
next
  assume eq: "doc t = doc s \<and> root t = root s"
  then have d: "doc t = doc s"
    by simp
  from eq have r: "self_root t = self_root s"
    by (cases "root s") (simp_all add: self_root_def)
  show "get_meta_identification t = get_meta_identification s"
    unfolding get_meta_identification_def r d by (rule refl)
  show "get_meta_references t = get_meta_references s"
    unfolding get_meta_references_def r d by (rule refl)
  show "get_meta_proprietary t = get_meta_proprietary s"
    unfolding get_meta_proprietary_def r d by (rule refl)
  show "get_preface t = get_preface s"
    unfolding get_preface_def r d by (rule refl)
  show "get_preamble_formula t = get_preamble_formula s"
    unfolding get_preamble_formula_def r d by (rule refl)
  show "map_sum id chapters (get_chapters t) = map_sum id chapters (get_chapters s)"
    unfolding get_chapters_def r d by (cases "self_root s") simp_all
  show "map_sum id body (get_body t) = map_sum id body (get_body s)"
    unfolding get_body_def r d by (cases "self_root s") simp_all
  show "map_sum id act (get_act t) = map_sum id act (get_act s)"
    unfolding get_act_def r d by (cases "self_root s") simp_all
qed

theorem call_order_witness:
  "get_articles ex_chapters = Inl AttributeError
   \<and> (\<exists>s'. get_chapters ex_chapters = Inr s' \<and> doc s' = doc ex_chapters)
   \<and> (\<exists>s'. get_body ex_chapters = Inr s' \<and> doc s' = doc ex_chapters)
   \<and> (\<exists>s1 arts s2. get_body ex_chapters = Inr s1 \<and> body s1 = Some (Some 4)
          \<and> get_articles s1 = Inr (arts, s2))
   \<and> get_preface (ex_chapters\<lparr>body := Some (Some 4)\<rparr>) = get_preface ex_chapters"
proof -
  have r: "self_root ex_chapters = Inr chapters_doc"
    by (simp add: ex_chapters_def get_root_def init_def self_root_def deref_def chapters_doc_def)
  have b: "body ex_chapters = None \<or> body ex_chapters = Some None"
    by (simp add: ex_chapters_def get_root_def init_def)
  have e: "doc (ex_chapters\<lparr>body := Some (Some 4)\<rparr>) = doc ex_chapters
           \<and> root (ex_chapters\<lparr>body := Some (Some 4)\<rparr>) = root ex_chapters"
    by simp
  have w: "wf_forest (doc ex_chapters)"
    by (simp add: wf_forest_def ex_chapters_def get_root_def init_def chapters_doc_def)
  have f: "find_or (doc ex_chapters) chapters_doc [Self, Desc (akn ''body'')]
             [Self, Desc (plain ''body'')] = Some (hd (tl (echildren chapters_doc)))"
    by (simp add: find_or_def find_elem_def findall_def iterdescendants_def chapters_doc_def)
  have i: "eid (hd (tl (echildren chapters_doc))) = 4"
    by (simp add: chapters_doc_def)
  from call_order [of ex_chapters chapters_doc "hd (tl (echildren chapters_doc))"
      "ex_chapters\<lparr>body := Some (Some 4)\<rparr>"] r b e w f
  show ?thesis unfolding i by blast
qed

text \<open>
  Claim C9, as stated, fails twice on \<open>ex_chapters\<close>.  Chapter extraction succeeds
  though the body was never located.  And the operations are not independent:
  \<^verbatim>\<open>get_articles\<close> strips the notes of the body in place, so the heading of the second
  chapter reads \<^verbatim>\<open>General n provisions\<close> before it ran and \<^verbatim>\<open>General  provisions\<close> after.
\<close>

theorem chapters_without_body_and_order_dependence:
  "body ex_chapters = None
   \<and> chapters_at_once =
       Inr (Some [\<lparr>ch_eId = Some ''chp_0'', chapter_num = Some ''Chapter 0'', chapter_heading = None\<rparr>,
                  \<lparr>ch_eId = Some ''chp_1'', chapter_num = None,
                   chapter_heading = Some ''General n provisions''\<rparr>,
                  \<lparr>ch_eId = None, chapter_num = None, chapter_heading = None\<rparr>])
   \<and> chapters_after_articles =
       Inr (Some [\<lparr>ch_eId = Some ''chp_0'', chapter_num = Some ''Chapter 0'', chapter_heading = None\<rparr>,
                  \<lparr>ch_eId = Some ''chp_1'', chapter_num = None,
                   chapter_heading = Some ''General  provisions''\<rparr>,
                  \<lparr>ch_eId = None, chapter_num = None, chapter_heading = None\<rparr>])"
proof (intro conjI)
  show "body ex_chapters = None"
    by (simp add: ex_chapters_def get_root_def init_def)
  show "chapters_at_once =
       Inr (Some [\<lparr>ch_eId = Some ''chp_0'', chapter_num = Some ''Chapter 0'', chapter_heading = None\<rparr>,
                  \<lparr>ch_eId = Some ''chp_1'', chapter_num = None,
                   chapter_heading = Some ''General n provisions''\<rparr>,
                  \<lparr>ch_eId = None, chapter_num = None, chapter_heading = None\<rparr>])"
    by (simp add: chapters_at_once_def ex_chapters_def chapters_doc_def get_chapters_def doc_simps
          chapter_of_def itertext_def strip_def is_space_def)
  have b: "get_body ex_chapters = Inr (ex_chapters\<lparr>body := Some (Some 4)\<rparr>)"
    by (simp add: get_body_def find_or_def ex_chapters_def chapters_doc_def doc_simps)
  have a: "get_articles (ex_chapters\<lparr>body := Some (Some 4)\<rparr>) =
             Inr ([], ex_chapters\<lparr>body := Some (Some 4), articles := Some [],
                    doc := [Elem 0 (akn ''akomaNtoso'') [] None
       [Elem 1 (akn ''preface'') [] None
          [Elem 2 (akn ''chapter'') [(''eId'', ''chp_0'')] None
             [Elem 3 (akn ''num'') [] (Some ''Chapter 0'') [] None] None] None,
        Elem 4 (akn ''body'') [] None
          [Elem 5 (akn ''chapter'') [(''eId'', ''chp_1'')] None
             [Elem 6 (akn ''heading'') [] (Some '' General  provisions '') [] None]
             None,
           Elem 8 (akn ''chapter'') [] None [] None] None] None,
           Elem 7 (akn ''authorialNote'') [] (Some ''n'') [] (Some '' provisions '')]\<rparr>)"
    by (simp add: get_articles_def ex_chapters_def chapters_doc_def eval_simps doc_simps)
  show "chapters_after_articles =
       Inr (Some [\<lparr>ch_eId = Some ''chp_0'', chapter_num = Some ''Chapter 0'', chapter_heading = None\<rparr>,
                  \<lparr>ch_eId = Some ''chp_1'', chapter_num = None,
                   chapter_heading = Some ''General  provisions''\<rparr>,
                  \<lparr>ch_eId = None, chapter_num = None, chapter_heading = None\<rparr>])"
    unfolding chapters_after_articles_def b bind_err_simps a
    by (simp add: ex_chapters_def chapters_doc_def get_chapters_def doc_simps
          chapter_of_def itertext_def strip_def is_space_def)
qed

end
